theory Spec2Isabelle
  imports Complex_Main
begin

section \<open>The capped map (class LRUMap)\<close>

text \<open>
  The server keeps its in-memory stores in \<^verbatim>\<open>LRUMap\<close>, a subclass of the built-in
  \<^verbatim>\<open>Map\<close>. A built-in map iterates in insertion order, so it is modelled as an
  association list in insertion order (oldest entry first) with distinct keys.
  The functions prefixed \<open>map_\<close> are the inherited operations (\<^verbatim>\<open>super.set\<close>,
  \<^verbatim>\<open>delete\<close>, \<^verbatim>\<open>has\<close>, \<^verbatim>\<open>size\<close>); the ones prefixed \<open>lru_\<close> are the two
  methods the class overrides.
\<close>

record ('k, 'v) lrumap =
  maxSize :: nat
  entries :: "('k \<times> 'v) list"

definition new_LRUMap :: "nat \<Rightarrow> ('k, 'v) lrumap" where
  "new_LRUMap n = \<lparr>maxSize = n, entries = []\<rparr>"

definition map_has :: "('k, 'v) lrumap \<Rightarrow> 'k \<Rightarrow> bool" where
  "map_has m k = (k \<in> fst ` set (entries m))"

definition map_lookup :: "('k, 'v) lrumap \<Rightarrow> 'k \<Rightarrow> 'v option" where
  "map_lookup m k = map_of (entries m) k"

definition map_delete :: "('k, 'v) lrumap \<Rightarrow> 'k \<Rightarrow> ('k, 'v) lrumap" where
  "map_delete m k = m\<lparr>entries := filter (\<lambda>e. fst e \<noteq> k) (entries m)\<rparr>"

text \<open>\<^verbatim>\<open>super.set\<close>: a key already present keeps its place, a new key goes last.\<close>

definition map_set :: "('k, 'v) lrumap \<Rightarrow> 'k \<Rightarrow> 'v \<Rightarrow> ('k, 'v) lrumap" where
  "map_set m k v =
     (if map_has m k
      then m\<lparr>entries := map (\<lambda>e. if fst e = k then (k, v) else e) (entries m)\<rparr>
      else m\<lparr>entries := entries m @ [(k, v)]\<rparr>)"

definition map_size :: "('k, 'v) lrumap \<Rightarrow> nat" where
  "map_size m = length (entries m)"

definition map_keys :: "('k, 'v) lrumap \<Rightarrow> 'k list" where
  "map_keys m = map fst (entries m)"

text \<open>
  \<^verbatim>\<open>set(key, value)\<close>: delete the key when present, insert it last, and when the size
  now exceeds \<^verbatim>\<open>maxSize\<close> delete the first key of the iteration order.
\<close>

definition lru_set :: "('k, 'v) lrumap \<Rightarrow> 'k \<Rightarrow> 'v \<Rightarrow> ('k, 'v) lrumap" where
  "lru_set m k v =
     (let m1 = (if map_has m k then map_delete m k else m);
          m2 = map_set m1 k v
      in if map_size m2 > maxSize m2
         then (case map_keys m2 of
                 [] \<Rightarrow> m2
               | firstKey # _ \<Rightarrow> map_delete m2 firstKey)
         else m2)"

text \<open>
  \<^verbatim>\<open>get(key)\<close>: \<^verbatim>\<open>undefined\<close> (here \<open>None\<close>) and no change when the key is absent;
  otherwise the entry is deleted and inserted again, which moves it last.
\<close>

definition lru_get :: "('k, 'v) lrumap \<Rightarrow> 'k \<Rightarrow> 'v option \<times> ('k, 'v) lrumap" where
  "lru_get m k =
     (if \<not> map_has m k then (None, m)
      else (case map_lookup m k of
              None \<Rightarrow> (None, m)
            | Some value \<Rightarrow> (Some value, map_set (map_delete m k) k value)))"

text \<open>A sequence of operations on one map, as a caller would issue them.\<close>

datatype ('k, 'v) lru_op = Get 'k | Set 'k 'v

fun lru_apply :: "('k, 'v) lrumap \<Rightarrow> ('k, 'v) lru_op \<Rightarrow> ('k, 'v) lrumap" where
  "lru_apply m (Get k) = snd (lru_get m k)"
| "lru_apply m (Set k v) = lru_set m k v"

definition lru_run :: "('k, 'v) lrumap \<Rightarrow> ('k, 'v) lru_op list \<Rightarrow> ('k, 'v) lrumap" where
  "lru_run m ops = foldl lru_apply m ops"


text \<open>
  The two facts every method above keeps true of a map built by \<^verbatim>\<open>new LRUMap(n)\<close>:
  keys are distinct (a property of the built-in map) and the size is within the cap.
\<close>

definition lru_inv :: "('k, 'v) lrumap \<Rightarrow> bool" where
  "lru_inv m = (distinct (map_keys m) \<and> map_size m \<le> maxSize m)"

section \<open>Rate limiting\<close>

text \<open>
  One store, \<^verbatim>\<open>rateLimitStore = new LRUMap(10000)\<close>, maps a client key to the array of
  its request times (epoch milliseconds, \<^verbatim>\<open>Date.now()\<close>). The key is the
  \<^verbatim>\<open>x-forwarded-for\<close> header, or \<^verbatim>\<open>'unknown'\<close> when the header is missing or empty.
\<close>

type_synonym rate_store = "(string, int list) lrumap"

definition rateLimitStore_init :: rate_store where
  "rateLimitStore_init = new_LRUMap 10000"

definition client_key :: "string option \<Rightarrow> string" where
  "client_key hdr = (case hdr of None \<Rightarrow> ''unknown'' | Some h \<Rightarrow> if h = [] then ''unknown'' else h)"

text \<open>\<^verbatim>\<open>Math.ceil(a / 1000)\<close> on integers \<open>a\<close>.\<close>

definition ceil_seconds :: "int \<Rightarrow> int" where
  "ceil_seconds a = - ((- a) div 1000)"

text \<open>
  What a limiter does with a request: it calls \<^verbatim>\<open>next()\<close>, or answers 429 with a
  \<^verbatim>\<open>retryAfter\<close> field, or throws (reading \<^verbatim>\<open>.filter\<close> of \<^verbatim>\<open>undefined\<close> when the
  key it has just stored is already gone, which needs a cap of 0).
\<close>

datatype limit_result = Allowed | RateLimited int | Thrown

text \<open>The middleware returned by \<^verbatim>\<open>rateLimiter(maxRequests, windowMs, routeName)\<close>.\<close>

definition rateLimiter ::
  "nat \<Rightarrow> int \<Rightarrow> string option \<Rightarrow> int \<Rightarrow> rate_store \<Rightarrow> limit_result \<times> rate_store" where
  "rateLimiter maxRequests windowMs hdr now store =
     (let key = client_key hdr;
          windowStart = now - windowMs;
          s1 = (if \<not> map_has store key then lru_set store key [] else store);
          got = lru_get s1 key
      in case fst got of
           None \<Rightarrow> (Thrown, snd got)
         | Some requests \<Rightarrow>
             (let validRequests = filter (\<lambda>time. time > windowStart) requests
              in if length validRequests \<ge> maxRequests
                 then (RateLimited (ceil_seconds (windowStart + windowMs - now)), snd got)
                 else (Allowed, lru_set (snd got) key (validRequests @ [now]))))"

definition authLimiter :: "string option \<Rightarrow> int \<Rightarrow> rate_store \<Rightarrow> limit_result \<times> rate_store" where
  "authLimiter = rateLimiter 10 (15 * 60 * 1000)"

definition globalLimiter :: "string option \<Rightarrow> int \<Rightarrow> rate_store \<Rightarrow> limit_result \<times> rate_store" where
  "globalLimiter = rateLimiter 300 (15 * 60 * 1000)"

text \<open>Several calls of one limiter in a row, at the given times, for one client.\<close>

fun limiter_calls ::
  "nat \<Rightarrow> int \<Rightarrow> string option \<Rightarrow> int list \<Rightarrow> rate_store \<Rightarrow> limit_result list \<times> rate_store" where
  "limiter_calls maxRequests windowMs hdr [] store = ([], store)"
| "limiter_calls maxRequests windowMs hdr (now # later) store =
     (let r = rateLimiter maxRequests windowMs hdr now store;
          rest = limiter_calls maxRequests windowMs hdr later (snd r)
      in (fst r # fst rest, snd rest))"

text \<open>The timestamps the store holds for a key; none when the key is absent.\<close>

definition recorded :: "rate_store \<Rightarrow> string \<Rightarrow> int list" where
  "recorded store key = (case map_lookup store key of None \<Rightarrow> [] | Some requests \<Rightarrow> requests)"

subsection \<open>The hourly cleanup of the rate-limit store\<close>

text \<open>
  \<^verbatim>\<open>for (const [ip, requests] of rateLimitStore.entries()) { ... }\<close> walks the live map:
  an entry deleted before the iterator reaches it is skipped and an entry added during the
  walk is visited later. The body either deletes the entry it was handed or stores it again
  through the overriding \<^verbatim>\<open>set\<close>, which deletes it and inserts it last. Either way
  the entry handed out was the first of the map and the next one handed out is the first of
  the map as the body left it, so the loop is: while the map has an entry, treat the
  first. It ends when the map is empty; \<open>None\<close> stands for a walk that never ends.
\<close>

definition maxWindow :: int where
  "maxWindow = 15 * 60 * 1000"

partial_function (option) cleanup_rate_limits :: "int \<Rightarrow> rate_store \<Rightarrow> rate_store option" where
  "cleanup_rate_limits now store =
     (case entries store of
        [] \<Rightarrow> Some store
      | e # _ \<Rightarrow>
          (let ip = fst e; requests = snd e;
               validRequests = filter (\<lambda>time. time > now - maxWindow) requests
           in if length validRequests = 0
              then cleanup_rate_limits now (map_delete store ip)
              else cleanup_rate_limits now (lru_set store ip validRequests)))"

text \<open>Some client has a request of the last 15 minutes on record.\<close>

definition has_recent :: "int \<Rightarrow> rate_store \<Rightarrow> bool" where
  "has_recent now store =
     (\<exists>e \<in> set (entries store). \<exists>time \<in> set (snd e). time > now - maxWindow)"

section \<open>Anti-forgery tokens\<close>

record csrf_data =
  token :: string
  timestamp :: int

type_synonym csrf_store = "(string, csrf_data) lrumap"

definition csrfTokenStore_init :: csrf_store where
  "csrfTokenStore_init = new_LRUMap 5000"

definition CSRF_TOKEN_EXPIRY :: int where
  "CSRF_TOKEN_EXPIRY = 24 * 60 * 60 * 1000"

text \<open>
  Sign-up and sign-in store a fresh token for the user:
  \<^verbatim>\<open>csrfTokenStore.set(id, { token: generateCSRFToken(), timestamp: Date.now() })\<close>.
  The token is 32 random bytes in hexadecimal; here it is an argument.
\<close>

definition issue_csrf :: "string \<Rightarrow> string \<Rightarrow> int \<Rightarrow> csrf_store \<Rightarrow> csrf_store" where
  "issue_csrf userID csrfToken now store = lru_set store userID \<lparr>token = csrfToken, timestamp = now\<rparr>"

datatype csrf_result = CsrfNext | Csrf403 string

text \<open>
  \<^verbatim>\<open>csrfProtection(c, next)\<close>. The header and the \<^verbatim>\<open>userID\<close> of the request context may
  be missing (\<open>None\<close>); an empty string is falsy too.
\<close>

definition csrfProtection ::
  "string option \<Rightarrow> string option \<Rightarrow> int \<Rightarrow> csrf_store \<Rightarrow> csrf_result \<times> csrf_store" where
  "csrfProtection hdr ctx now store =
     (case (hdr, ctx) of
        (Some csrfToken, Some userID) \<Rightarrow>
          if csrfToken = [] \<or> userID = [] then (Csrf403 ''Invalid CSRF token'', store)
          else
            (let got = lru_get store userID
             in case fst got of
                  None \<Rightarrow> (Csrf403 ''Invalid CSRF token'', snd got)
                | Some storedData \<Rightarrow>
                    if token storedData \<noteq> csrfToken then (Csrf403 ''Invalid CSRF token'', snd got)
                    else if now - timestamp storedData > CSRF_TOKEN_EXPIRY
                    then (Csrf403 ''CSRF token expired'', map_delete (snd got) userID)
                    else (CsrfNext, snd got))
      | _ \<Rightarrow> (Csrf403 ''Invalid CSRF token'', store))"

section \<open>Handles\<close>

text \<open>
  Strings are lists of 8-bit characters, so the model covers requests whose text lies in
  Latin-1. Both routes normalise the handle with
  \<^verbatim>\<open>username.replace(/^@/, '').trim().toLowerCase()\<close> and test it against
  \<^verbatim>\<open>/^[a-zA-Z0-9_]{1,15}$/\<close>.
\<close>

definition strip_at :: "string \<Rightarrow> string" where
  "strip_at s = (case s of [] \<Rightarrow> [] | c # rest \<Rightarrow> if c = CHR ''@'' then rest else s)"

definition js_space :: "char \<Rightarrow> bool" where
  "js_space c = ((of_char c :: nat) \<in> {9, 10, 11, 12, 13, 32, 160})"

definition js_trim :: "string \<Rightarrow> string" where
  "js_trim s = rev (dropWhile js_space (rev (dropWhile js_space s)))"

definition js_lower_char :: "char \<Rightarrow> char" where
  "js_lower_char c =
     (let n = (of_char c :: nat)
      in if (65 \<le> n \<and> n \<le> 90) \<or> (192 \<le> n \<and> n \<le> 222 \<and> n \<noteq> 215)
         then char_of (n + 32) else c)"

definition toLowerCase :: "string \<Rightarrow> string" where
  "toLowerCase s = map js_lower_char s"

definition cleanUsername :: "string \<Rightarrow> string" where
  "cleanUsername username = toLowerCase (js_trim (strip_at username))"

definition word_char :: "char \<Rightarrow> bool" where
  "word_char c =
     (let n = (of_char c :: nat)
      in (97 \<le> n \<and> n \<le> 122) \<or> (65 \<le> n \<and> n \<le> 90) \<or> (48 \<le> n \<and> n \<le> 57) \<or> n = 95)"

definition username_format_ok :: "string \<Rightarrow> bool" where
  "username_format_ok s = (1 \<le> length s \<and> length s \<le> 15 \<and> list_all word_char s)"

section \<open>The profile cache and the profile route\<close>

text \<open>
  The profile cache is a table with the lower-cased handle as primary key, written with
  \<^verbatim>\<open>INSERT OR REPLACE\<close>: a map from handle to the stored row. The payload is the
  serialised profile. Reading the table is taken not to throw.
\<close>

record profile_row =
  data :: string
  cached_at :: int

type_synonym profile_cache = "string \<Rightarrow> profile_row option"

definition getCachedProfile :: "profile_cache \<Rightarrow> string \<Rightarrow> profile_row option" where
  "getCachedProfile db username = db (toLowerCase username)"

definition setCachedProfile :: "profile_cache \<Rightarrow> string \<Rightarrow> string \<Rightarrow> int \<Rightarrow> profile_cache" where
  "setCachedProfile db username d now = db(toLowerCase username \<mapsto> \<lparr>data = d, cached_at = now\<rparr>)"

definition PROFILE_CACHE_TTL :: int where
  "PROFILE_CACHE_TTL = 7 * 24 * 60 * 60 * 1000"

text \<open>
  What the external profile provider does with a lookup: it returns a user (here already
  turned into the payload the route stores), returns no data, or throws with a status.
\<close>

datatype x_result = XUser string | XNoData | XThrows nat

record user_env =
  xClient :: bool
  DISABLE_RATE_LIMIT :: bool
  getByUsername :: "string \<Rightarrow> x_result"
  profile_write_ok :: bool

datatype user_response =
    UProfile string
  | UError nat string
  | UDailyLimit "int option"
  | UTooMany int
  | UUnhandled

text \<open>
  \<^verbatim>\<open>app.get("/user/:username")\<close>, the handler alone. Its own limit of 3 calls in 24
  hours is written out in the handler and reads and writes \<^verbatim>\<open>rateLimitStore\<close>
  under the same client key as the middleware does. An exception inside the handler is
  caught and answered with 500 (404 when it carries that status). The downloads of avatar
  and banner never throw and touch only the disk; they are left out.
\<close>

definition user_route ::
  "user_env \<Rightarrow> string \<Rightarrow> string option \<Rightarrow> int \<Rightarrow> rate_store \<times> profile_cache
     \<Rightarrow> user_response \<times> rate_store \<times> profile_cache" where
  "user_route env username hdr now st =
     (let store = fst st; db = snd st
      in if \<not> xClient env then (UError 503 ''X API service unavailable'', store, db)
         else if username = [] then (UError 400 ''Invalid username'', store, db)
         else
           (let clean = cleanUsername username
            in if \<not> username_format_ok clean then (UError 400 ''Invalid username format'', store, db)
               else
                 (case (case getCachedProfile db clean of
                          None \<Rightarrow> None
                        | Some cached \<Rightarrow>
                            if now - cached_at cached < PROFILE_CACHE_TTL then Some cached else None) of
                    Some cached \<Rightarrow> (UProfile (data cached), store, db)
                  | None \<Rightarrow>
                      (let gate =
                             (if DISABLE_RATE_LIMIT env then Inr store
                              else
                                (let ip = client_key hdr;
                                     windowMs = 24 * 60 * 60 * 1000;
                                     maxRequests = 3;
                                     s1 = (if \<not> map_has store ip then lru_set store ip [] else store);
                                     got = lru_get s1 ip
                                 in case fst got of
                                      None \<Rightarrow> Inl (UError 500 ''Failed to fetch user data'', snd got)
                                    | Some stored \<Rightarrow>
                                        (let requests = filter (\<lambda>time. time > now - windowMs) stored
                                         in if length requests \<ge> maxRequests
                                            then Inl (UDailyLimit
                                                       (case requests of
                                                          [] \<Rightarrow> None
                                                        | r0 # _ \<Rightarrow> Some (ceil_seconds (r0 + windowMs - now))),
                                                      snd got)
                                            else Inr (lru_set (snd got) ip (requests @ [now])))))
                       in case gate of
                            Inl (resp, store') \<Rightarrow> (resp, store', db)
                          | Inr store' \<Rightarrow>
                              (case getByUsername env clean of
                                 XThrows status \<Rightarrow>
                                   (if status = 404 then (UError 404 ''User not found'', store', db)
                                    else (UError 500 ''Failed to fetch user data'', store', db))
                               | XNoData \<Rightarrow> (UError 404 ''User not found'', store', db)
                               | XUser userData \<Rightarrow>
                                   if profile_write_ok env
                                   then (UProfile userData, store', setCachedProfile db clean userData now)
                                   else (UError 500 ''Failed to fetch user data'', store', db))))))"

text \<open>
  A request as the server sees it: \<^verbatim>\<open>app.use('*', globalLimiter)\<close> runs first, for every
  route. \<open>other_request\<close> is a request to any route that has no limiter of its own, such
  as \<^verbatim>\<open>/health\<close>; only what it does to the store is kept.
\<close>

definition user_request ::
  "user_env \<Rightarrow> string \<Rightarrow> string option \<Rightarrow> int \<Rightarrow> rate_store \<times> profile_cache
     \<Rightarrow> user_response \<times> rate_store \<times> profile_cache" where
  "user_request env username hdr now st =
     (let g = globalLimiter hdr now (fst st)
      in case fst g of
           Allowed \<Rightarrow> user_route env username hdr now (snd g, snd st)
         | RateLimited r \<Rightarrow> (UTooMany r, snd g, snd st)
         | Thrown \<Rightarrow> (UUnhandled, snd g, snd st))"

definition other_request :: "string option \<Rightarrow> int \<Rightarrow> rate_store \<Rightarrow> rate_store" where
  "other_request hdr now store = snd (globalLimiter hdr now store)"

section \<open>Numbers of the request\<close>

text \<open>
  A number of the runtime is a double: \<^verbatim>\<open>NaN\<close>, an infinity, or a finite value, kept
  here as the rational it equals. Negative zero is not told apart from zero; it compares
  and prints like zero.
\<close>

datatype jsnum = NaN | Number rat | PosInf | NegInf

definition isNaN :: "jsnum \<Rightarrow> bool" where
  "isNaN x = (x = NaN)"

text \<open>\<^verbatim>\<open>x < c\<close> and \<^verbatim>\<open>x > c\<close> for a finite constant \<open>c\<close>; both are false on \<^verbatim>\<open>NaN\<close>.\<close>

definition js_less :: "jsnum \<Rightarrow> rat \<Rightarrow> bool" where
  "js_less x c = (case x of NaN \<Rightarrow> False | Number r \<Rightarrow> r < c | PosInf \<Rightarrow> False | NegInf \<Rightarrow> True)"

definition js_greater :: "jsnum \<Rightarrow> rat \<Rightarrow> bool" where
  "js_greater x c = (case x of NaN \<Rightarrow> False | Number r \<Rightarrow> r > c | PosInf \<Rightarrow> True | NegInf \<Rightarrow> False)"

subsection \<open>Rounding to a double\<close>

text \<open>
  The value a text denotes is rounded to the nearest double, ties to the even significand.
  \<open>bits n\<close> is the length of \<open>n\<close> in binary; \<open>binade v\<close> is the exponent \<open>e\<close> with
  \<open>2^e \<le> v < 2^(e+1)\<close>. A double has a 53-bit significand, so the doubles of that
  binade are the multiples of \<open>2^(e-52)\<close>; below \<open>2^-1022\<close> the spacing stays that of
  the lowest binade. A result of \<open>2^1024\<close> or more is an infinity.
\<close>

function bits :: "int \<Rightarrow> nat" where
  "bits n = (if n \<le> 0 then 0 else Suc (bits (n div 2)))"
  by pat_completeness auto
termination
  by (relation "measure nat") auto

declare bits.simps [simp del]

definition pow2 :: "int \<Rightarrow> rat" where
  "pow2 e = (if e \<ge> 0 then 2 ^ nat e else 1 / 2 ^ nat (- e))"

definition pow10 :: "int \<Rightarrow> rat" where
  "pow10 e = (if e \<ge> 0 then 10 ^ nat e else 1 / 10 ^ nat (- e))"

definition binade :: "rat \<Rightarrow> int" where
  "binade v = (if v \<ge> 1 then int (bits \<lfloor>v\<rfloor>) - 1 else - int (bits (\<lceil>1 / v\<rceil> - 1)))"

definition round_half_even :: "rat \<Rightarrow> int" where
  "round_half_even x =
     (let f = \<lfloor>x\<rfloor>; r = x - of_int f
      in if r < 1 / 2 then f else if r > 1 / 2 then f + 1 else if even f then f else f + 1)"

definition to_double :: "rat \<Rightarrow> jsnum" where
  "to_double v =
     (if v = 0 then Number 0
      else (let a = \<bar>v\<bar>;
                e = max (binade a) (- 1022);
                q = pow2 (e - 52);
                r = of_int (round_half_even (a / q)) * q
            in if r \<ge> 2 ^ 1024 then (if v < 0 then NegInf else PosInf)
               else Number (if v < 0 then - r else r)))"

subsection \<open>Reading a number\<close>

definition is_digit :: "char \<Rightarrow> bool" where
  "is_digit c = (48 \<le> (of_char c :: nat) \<and> (of_char c :: nat) \<le> 57)"

definition hex_value :: "char \<Rightarrow> nat option" where
  "hex_value c =
     (let n = (of_char c :: nat)
      in if 48 \<le> n \<and> n \<le> 57 then Some (n - 48)
         else if 97 \<le> n \<and> n \<le> 102 then Some (n - 87)
         else if 65 \<le> n \<and> n \<le> 70 then Some (n - 55)
         else None)"

definition is_hex :: "char \<Rightarrow> bool" where
  "is_hex c = (hex_value c \<noteq> None)"

definition digits_value :: "int \<Rightarrow> string \<Rightarrow> int" where
  "digits_value radix ds =
     foldl (\<lambda>acc c. acc * radix + (case hex_value c of None \<Rightarrow> 0 | Some d \<Rightarrow> int d)) 0 ds"

text \<open>A leading sign: whether it is a minus, and the text after it.\<close>

definition split_sign :: "string \<Rightarrow> bool \<times> string" where
  "split_sign s =
     (case s of
        [] \<Rightarrow> (False, [])
      | c # rest \<Rightarrow>
          if c = CHR ''-'' then (True, rest)
          else if c = CHR ''+'' then (False, rest)
          else (False, s))"

text \<open>
  \<^verbatim>\<open>parseInt(s)\<close> without a radix: leading white space and a sign are skipped, a prefix
  \<^verbatim>\<open>0x\<close> or \<^verbatim>\<open>0X\<close> selects base 16, and the longest run of digits is read; no digit gives
  \<^verbatim>\<open>NaN\<close>. The integer read is rounded to a double.
\<close>

definition parseInt :: "string \<Rightarrow> jsnum" where
  "parseInt s =
     (let signed = split_sign (dropWhile js_space s);
          neg = fst signed;
          body = snd signed;
          hex = (case body of
                   c0 # c1 # _ \<Rightarrow> c0 = CHR ''0'' \<and> (c1 = CHR ''x'' \<or> c1 = CHR ''X'')
                 | _ \<Rightarrow> False);
          ds = (if hex then takeWhile is_hex (drop 2 body) else takeWhile is_digit body);
          radix = (if hex then 16 else 10)
      in if ds = [] then NaN
         else to_double (of_int ((if neg then - 1 else 1) * digits_value radix ds)))"

text \<open>The exponent part \<^verbatim>\<open>e\<close>, sign, digits; 0 when the text has none.\<close>

definition exponent_part :: "string \<Rightarrow> int" where
  "exponent_part s =
     (case s of
        [] \<Rightarrow> 0
      | c # rest \<Rightarrow>
          if c = CHR ''e'' \<or> c = CHR ''E''
          then (let signed = split_sign rest; ds = takeWhile is_digit (snd signed)
                in if ds = [] then 0
                   else (if fst signed then - 1 else 1) * digits_value 10 ds)
          else 0)"

text \<open>
  \<^verbatim>\<open>parseFloat(s)\<close>: white space, a sign, then \<^verbatim>\<open>Infinity\<close> or the longest decimal
  literal (digits, an optional fraction, an optional exponent); \<^verbatim>\<open>NaN\<close> when there is
  neither. The value of the literal is rounded to a double.
\<close>

definition parseFloat :: "string \<Rightarrow> jsnum" where
  "parseFloat s =
     (let signed = split_sign (dropWhile js_space s);
          neg = fst signed;
          body = snd signed
      in if take 8 body = ''Infinity'' then (if neg then NegInf else PosInf)
         else
           (let ip = takeWhile is_digit body;
                r1 = dropWhile is_digit body;
                dot = (case r1 of [] \<Rightarrow> False | c # _ \<Rightarrow> c = CHR ''.'');
                fp = (if dot then takeWhile is_digit (tl r1) else []);
                r2 = (if dot then dropWhile is_digit (tl r1) else r1)
            in if ip = [] \<and> fp = [] then NaN
               else
                 (let v = (of_int (digits_value 10 (ip @ fp)) :: rat)
                            * pow10 (exponent_part r2 - int (length fp))
                  in to_double (if neg then - v else v))))"

subsection \<open>Printing a number\<close>

text \<open>
  A number inside a template literal is printed with the fewest digits that read back as
  the same double: \<open>k\<close> digits \<open>s\<close> and a decimal point position \<open>n\<close> with
  \<open>s * 10^(n-k)\<close> rounding to the number, \<open>k\<close> least, and of two such \<open>s\<close> the one
  nearer the number. The candidates with \<open>k\<close> digits are the two neighbours of the number
  at that precision.
\<close>

function int_digits :: "int \<Rightarrow> string" where
  "int_digits n =
     (if n < 10 then [char_of (48 + nat n)]
      else int_digits (n div 10) @ [char_of (48 + nat (n mod 10))])"
  by pat_completeness auto
termination
  by (relation "measure nat") auto

declare int_digits.simps [simp del]

text \<open>For \<open>0 < x < 1\<close>: the \<open>n \<le> 0\<close> with \<open>10^(n-1) \<le> x < 10^n\<close>.\<close>

fun small_exp :: "nat \<Rightarrow> rat \<Rightarrow> int" where
  "small_exp 0 x = 0"
| "small_exp (Suc fuel) x = (if x \<ge> 1 / 10 then 0 else small_exp fuel (x * 10) - 1)"

definition decimal_exp :: "rat \<Rightarrow> int" where
  "decimal_exp x = (if x \<ge> 1 then int (length (int_digits \<lfloor>x\<rfloor>)) else small_exp 400 x)"

text \<open>
  \<open>shortest fuel k x n\<close> tries \<open>k\<close>, \<open>k + 1\<close>, ... digits and returns the digits found
  as a number; 17 digits always suffice for a double.
\<close>

fun shortest :: "nat \<Rightarrow> nat \<Rightarrow> rat \<Rightarrow> int \<Rightarrow> int \<times> nat" where
  "shortest 0 k x n = (\<lfloor>x / pow10 (n - int k)\<rfloor>, k)"
| "shortest (Suc fuel) k x n =
     (let unit = pow10 (n - int k);
          lo = \<lfloor>x / unit\<rfloor>;
          hi = lo + 1;
          lo_ok = (to_double (of_int lo * unit) = Number x);
          hi_ok = (to_double (of_int hi * unit) = Number x);
          dlo = x - of_int lo * unit;
          dhi = of_int hi * unit - x
      in if lo_ok \<and> hi_ok
         then (if dlo < dhi then (lo, k) else if dhi < dlo then (hi, k)
               else if even lo then (lo, k) else (hi, k))
         else if lo_ok then (lo, k)
         else if hi_ok then (hi, k)
         else shortest fuel (Suc k) x n)"

text \<open>The text for digits \<open>ds\<close> (\<open>k\<close> of them) and point position \<open>n\<close>.\<close>

definition layout :: "string \<Rightarrow> int \<Rightarrow> string" where
  "layout ds n =
     (let k = int (length ds)
      in if k \<le> n \<and> n \<le> 21 then ds @ replicate (nat (n - k)) CHR ''0''
         else if 0 < n \<and> n \<le> 21 then take (nat n) ds @ ''.'' @ drop (nat n) ds
         else if - 6 < n \<and> n \<le> 0 then ''0.'' @ replicate (nat (- n)) CHR ''0'' @ ds
         else (let e = n - 1;
                   es = (if e < 0 then ''-'' else ''+'') @ int_digits \<bar>e\<bar>
               in if k = 1 then ds @ ''e'' @ es
                  else take 1 ds @ ''.'' @ drop 1 ds @ ''e'' @ es))"

definition positive_string :: "rat \<Rightarrow> string" where
  "positive_string x =
     (let n = decimal_exp x;
          found = shortest 17 1 x n;
          s = fst found;
          k = snd found
      in if s = 10 ^ k then layout (int_digits (s div 10)) (n + 1)
         else layout (int_digits s) n)"

definition js_string :: "jsnum \<Rightarrow> string" where
  "js_string x =
     (case x of
        NaN \<Rightarrow> ''NaN''
      | PosInf \<Rightarrow> ''Infinity''
      | NegInf \<Rightarrow> ''-Infinity''
      | Number r \<Rightarrow>
          if r = 0 then ''0''
          else if r < 0 then ''-'' @ positive_string (- r)
          else positive_string r)"

section \<open>The shared rendering process\<close>

text \<open>
  The module keeps \<^verbatim>\<open>playwright\<close>, \<^verbatim>\<open>persistentBrowser\<close> and \<^verbatim>\<open>screenshotCount\<close>. A
  browser is known by the number of the launch that made it; \<open>launches\<close> counts the calls
  of \<^verbatim>\<open>pw.webkit.launch\<close>. Whether the library can be imported and whether a launch
  succeeds is given by the environment.
\<close>

record browser =
  browser_id :: nat
  isConnected :: bool

record manager =
  playwright :: bool
  persistentBrowser :: "browser option"
  screenshotCount :: nat
  launches :: nat

record engine_env =
  playwright_available :: bool
  launch_ok :: bool

definition MAX_SCREENSHOTS_BEFORE_RESTART :: nat where
  "MAX_SCREENSHOTS_BEFORE_RESTART = 100"

definition manager_init :: manager where
  "manager_init = \<lparr>playwright = False, persistentBrowser = None, screenshotCount = 0, launches = 0\<rparr>"

text \<open>
  \<^verbatim>\<open>getBrowser\<close> is an asynchronous function: it runs without interruption from one
  \<^verbatim>\<open>await\<close> to the next, and other callers may run in between. A caller is at one of
  these points:
  \<^item> \<open>AtStart\<close>: about to load the library, test the restart condition and go on;
  \<^item> \<open>AtClosed\<close>: inside \<^verbatim>\<open>restartBrowser\<close>, the awaited \<^verbatim>\<open>close()\<close> has finished (its
    error, if any, is ignored);
  \<^item> \<open>AtCheck\<close>: \<^verbatim>\<open>restartBrowser\<close> has returned, about to test \<^verbatim>\<open>isConnected()\<close>;
  \<^item> \<open>AtLaunched n\<close>: the awaited launch number \<open>n\<close> has finished;
  \<^item> \<open>Returned b\<close>: the call has returned \<open>b\<close> (\<open>None\<close> is \<^verbatim>\<open>null\<close>);
  \<^item> \<open>Rejected\<close>: the launch threw and so did the call.
\<close>

datatype acquire_pc = AtStart | AtClosed | AtCheck | AtLaunched nat | Returned "browser option" | Rejected

definition check_and_launch :: "engine_env \<Rightarrow> manager \<Rightarrow> acquire_pc \<times> manager" where
  "check_and_launch env m =
     (case (case persistentBrowser m of
              None \<Rightarrow> None
            | Some b \<Rightarrow> if isConnected b then Some b else None) of
        Some b \<Rightarrow> (Returned (Some b), m)
      | None \<Rightarrow>
          (if launch_ok env then AtLaunched (launches m) else Rejected,
           m\<lparr>launches := Suc (launches m)\<rparr>))"

definition acquire_step :: "engine_env \<Rightarrow> acquire_pc \<Rightarrow> manager \<Rightarrow> acquire_pc \<times> manager" where
  "acquire_step env pc m =
     (case pc of
        AtStart \<Rightarrow>
          (let m1 = m\<lparr>playwright := playwright m \<or> playwright_available env\<rparr>
           in if \<not> playwright m1 then (Returned None, m1)
              else if screenshotCount m1 \<ge> MAX_SCREENSHOTS_BEFORE_RESTART
                      \<and> persistentBrowser m1 \<noteq> None
              then (AtClosed, m1)
              else check_and_launch env m1)
      | AtClosed \<Rightarrow> (AtCheck, m\<lparr>persistentBrowser := None, screenshotCount := 0\<rparr>)
      | AtCheck \<Rightarrow> check_and_launch env m
      | AtLaunched n \<Rightarrow>
          (Returned (Some \<lparr>browser_id = n, isConnected = True\<rparr>),
           m\<lparr>persistentBrowser := Some \<lparr>browser_id = n, isConnected = True\<rparr>\<rparr>)
      | Returned b \<Rightarrow> (Returned b, m)
      | Rejected \<Rightarrow> (Rejected, m))"

text \<open>One call run to its end with no other caller in between: at most four steps.\<close>

fun acquire_run :: "nat \<Rightarrow> engine_env \<Rightarrow> acquire_pc \<times> manager \<Rightarrow> acquire_pc \<times> manager" where
  "acquire_run 0 env st = st"
| "acquire_run (Suc n) env st = acquire_run n env (acquire_step env (fst st) (snd st))"

definition getBrowser :: "engine_env \<Rightarrow> manager \<Rightarrow> acquire_pc \<times> manager" where
  "getBrowser env m = acquire_run 4 env (AtStart, m)"

text \<open>
  What happens to the manager between calls. The process may die, after which
  \<^verbatim>\<open>isConnected()\<close> is false; the route \<^verbatim>\<open>/clear-cache\<close> closes the browser and sets
  \<^verbatim>\<open>persistentBrowser\<close> to \<^verbatim>\<open>null\<close> without touching the count (its \<^verbatim>\<open>close\<close> is taken to
  succeed); a finished render adds one to \<^verbatim>\<open>screenshotCount\<close>.
\<close>

definition disconnect :: "manager \<Rightarrow> manager" where
  "disconnect m =
     m\<lparr>persistentBrowser := map_option (\<lambda>b. b\<lparr>isConnected := False\<rparr>) (persistentBrowser m)\<rparr>"

definition clear_cache :: "manager \<Rightarrow> manager" where
  "clear_cache m = m\<lparr>persistentBrowser := None\<rparr>"

definition count_render :: "manager \<Rightarrow> manager" where
  "count_render m = m\<lparr>screenshotCount := Suc (screenshotCount m)\<rparr>"

text \<open>
  A history without overlap: calls of \<^verbatim>\<open>getBrowser\<close>, each finished before anything else
  happens, with the other events in between. The result lists what the calls returned.
\<close>

datatype manager_event = Acquire | Disconnect | ClearCache | Render

fun run_events :: "engine_env \<Rightarrow> manager_event list \<Rightarrow> manager \<Rightarrow> acquire_pc list \<times> manager" where
  "run_events env [] m = ([], m)"
| "run_events env (Acquire # evs) m =
     (let r = getBrowser env m; rest = run_events env evs (snd r)
      in (fst r # fst rest, snd rest))"
| "run_events env (Disconnect # evs) m = run_events env evs (disconnect m)"
| "run_events env (ClearCache # evs) m = run_events env evs (clear_cache m)"
| "run_events env (Render # evs) m = run_events env evs (count_render m)"

text \<open>The browser made by launch number \<open>i\<close>.\<close>

definition launched :: "nat \<Rightarrow> browser" where
  "launched i = \<lparr>browser_id = i, isConnected = True\<rparr>"

text \<open>
  Callers that overlap: each entry of the list is one unfinished call, and a schedule names
  the caller that runs its next step.
\<close>

definition sched_step :: "engine_env \<Rightarrow> acquire_pc list \<times> manager \<Rightarrow> nat \<Rightarrow> acquire_pc list \<times> manager" where
  "sched_step env st i =
     (if i < length (fst st)
      then (let r = acquire_step env (fst st ! i) (snd st) in ((fst st)[i := fst r], snd r))
      else st)"

definition run_schedule :: "engine_env \<Rightarrow> nat list \<Rightarrow> acquire_pc list \<times> manager \<Rightarrow> acquire_pc list \<times> manager" where
  "run_schedule env sched st = foldl (sched_step env) st sched"

section \<open>The image route\<close>

text \<open>
  The rendered-image cache is a table like the profile cache, keyed by the lower-cased
  composite key. The query of a request gives each of \<^verbatim>\<open>w\<close>, \<^verbatim>\<open>h\<close>, \<^verbatim>\<open>scale\<close> and
  \<^verbatim>\<open>theme\<close> as a string or not at all.
\<close>

type_synonym image = "nat list"

record image_row =
  image_bytes :: image
  image_cached_at :: int

type_synonym image_cache = "string \<Rightarrow> image_row option"

definition getCachedImage :: "image_cache \<Rightarrow> string \<Rightarrow> image_row option" where
  "getCachedImage db key = db (toLowerCase key)"

definition setCachedImage :: "image_cache \<Rightarrow> string \<Rightarrow> image \<Rightarrow> int \<Rightarrow> image_cache" where
  "setCachedImage db key img now = db(toLowerCase key \<mapsto> \<lparr>image_bytes = img, image_cached_at = now\<rparr>)"

definition SCREENSHOT_CACHE_TTL :: int where
  "SCREENSHOT_CACHE_TTL = 60 * 60 * 1000"

record qr_request =
  q_username :: string
  q_w :: "string option"
  q_h :: "string option"
  q_scale :: "string option"
  q_theme :: "string option"

text \<open>\<^verbatim>\<open>raw || "393"\<close>: the default replaces a missing parameter and an empty one.\<close>

definition or_default :: "string option \<Rightarrow> string \<Rightarrow> string" where
  "or_default raw dflt = (case raw of None \<Rightarrow> dflt | Some s \<Rightarrow> if s = [] then dflt else s)"

definition req_width :: "qr_request \<Rightarrow> jsnum" where
  "req_width req = parseInt (or_default (q_w req) ''393'')"

definition req_height :: "qr_request \<Rightarrow> jsnum" where
  "req_height req = parseInt (or_default (q_h req) ''852'')"

definition req_scale :: "qr_request \<Rightarrow> jsnum" where
  "req_scale req = parseFloat (or_default (q_scale req) ''3'')"

definition req_theme :: "qr_request \<Rightarrow> string" where
  "req_theme req = (if q_theme req = Some ''light'' then ''light'' else ''dark'')"

text \<open>The condition under which the handler answers 400 "Invalid dimensions".\<close>

definition invalid_dimensions :: "jsnum \<Rightarrow> jsnum \<Rightarrow> jsnum \<Rightarrow> bool" where
  "invalid_dimensions width height scale =
     (isNaN width \<or> isNaN height \<or> isNaN scale
      \<or> js_less width 100 \<or> js_greater width 1200
      \<or> js_less height 100 \<or> js_greater height 1000
      \<or> js_less scale 1 \<or> js_greater scale 4)"

text \<open>\<^verbatim>\<open>`${cleanUsername}_${width}x${height}_${scale}_${theme}`\<close>\<close>

definition cacheKey :: "string \<Rightarrow> jsnum \<Rightarrow> jsnum \<Rightarrow> jsnum \<Rightarrow> string \<Rightarrow> string" where
  "cacheKey clean width height scale theme =
     clean @ ''_'' @ js_string width @ ''x'' @ js_string height @ ''_'' @ js_string scale
       @ ''_'' @ theme"

text \<open>
  What the outside world does during one render: whether \<^verbatim>\<open>browser.newContext\<close>
  succeeds; whether the steps up to and including \<^verbatim>\<open>page.goto\<close> succeed; what
  \<^verbatim>\<open>page.screenshot\<close> returns (\<open>None\<close>: it throws); whether \<^verbatim>\<open>context.close\<close>
  succeeds; whether the write to the image cache succeeds. Waiting for the canvas is inside
  a \<^verbatim>\<open>try\<close> of its own and cannot change the outcome.
\<close>

record render_env =
  engine :: engine_env
  new_context_ok :: bool
  page_ok :: bool
  screenshot :: "image option"
  context_close_ok :: bool
  image_write_ok :: bool

datatype qr_response = QImage image | QError nat string | QUnhandled

record server =
  profiles :: profile_cache
  images :: image_cache
  browsers :: manager

text \<open>The host of the page the browser is sent to; the base address is a constant.\<close>

definition target_hostname :: string where
  "target_hostname = ''localhost''"

text \<open>
  The \<^verbatim>\<open>catch\<close> of the handler: close the context when one is open, then answer 500.
  A \<^verbatim>\<open>close\<close> that throws there leaves the handler with an exception.
\<close>

definition render_failed :: "render_env \<Rightarrow> bool \<Rightarrow> qr_response" where
  "render_failed env context_open =
     (if context_open \<and> \<not> context_close_ok env then QUnhandled
      else QError 500 ''Failed to generate image'')"

text \<open>
  The part of the handler inside \<^verbatim>\<open>try\<close>, with the browser in hand: the response and
  the new state.
\<close>

definition render_and_store ::
  "render_env \<Rightarrow> string \<Rightarrow> int \<Rightarrow> server \<Rightarrow> qr_response \<times> server" where
  "render_and_store env key now st =
     (if target_hostname \<noteq> ''localhost'' then (QError 400 ''Invalid target'', st)
      else if \<not> new_context_ok env then (render_failed env False, st)
      else if \<not> page_ok env then (render_failed env True, st)
      else
        (case screenshot env of
           None \<Rightarrow> (render_failed env True, st)
         | Some shot \<Rightarrow>
             if \<not> context_close_ok env then (render_failed env True, st)
             else
               (let st1 = st\<lparr>browsers := (browsers st)
                            \<lparr>screenshotCount := Suc (screenshotCount (browsers st))\<rparr>\<rparr>
                in if \<not> image_write_ok env then (render_failed env False, st1)
                   else (QImage shot, st1\<lparr>images := setCachedImage (images st1) key shot now\<rparr>))))"

text \<open>\<^verbatim>\<open>app.get("/qr/:username/image")\<close>\<close>

definition qr_image :: "render_env \<Rightarrow> qr_request \<Rightarrow> int \<Rightarrow> server \<Rightarrow> qr_response \<times> server" where
  "qr_image env req now st =
     (let width = req_width req;
          height = req_height req;
          scale = req_scale req;
          theme = req_theme req
      in if invalid_dimensions width height scale then (QError 400 ''Invalid dimensions'', st)
         else
           (let clean = cleanUsername (q_username req)
            in if \<not> username_format_ok clean then (QError 400 ''Invalid username format'', st)
               else
                 (case getCachedProfile (profiles st) clean of
                    None \<Rightarrow> (QError 404 ''Profile not cached. View the profile first.'', st)
                  | Some profileCached \<Rightarrow>
                      (let key = cacheKey clean width height scale theme
                       in case (case getCachedImage (images st) key of
                                  None \<Rightarrow> None
                                | Some cachedScreenshot \<Rightarrow>
                                    if now - image_cached_at cachedScreenshot < SCREENSHOT_CACHE_TTL
                                    then Some cachedScreenshot else None) of
                            Some cachedScreenshot \<Rightarrow> (QImage (image_bytes cachedScreenshot), st)
                          | None \<Rightarrow>
                              (let got = getBrowser (engine env) (browsers st);
                                   st1 = st\<lparr>browsers := snd got\<rparr>
                               in case fst got of
                                    Returned (Some browser) \<Rightarrow> render_and_store env key now st1
                                  | Returned None \<Rightarrow>
                                      (QError 503 ''Screenshot service unavailable'', st1)
                                  | _ \<Rightarrow> (QUnhandled, st1))))))"

text \<open>
  An environment in which every outside step succeeds, and a server that has just started,
  for the examples below.
\<close>

definition all_ok :: render_env where
  "all_ok = \<lparr>engine = \<lparr>playwright_available = True, launch_ok = True\<rparr>, new_context_ok = True,
     page_ok = True, screenshot = Some [137, 80, 78, 71], context_close_ok = True,
     image_write_ok = True\<rparr>"

definition server_init :: server where
  "server_init = \<lparr>profiles = Map.empty, images = Map.empty, browsers = manager_init\<rparr>"

section \<open>Properties of the capped map\<close>

lemma map_delete_size: "map_size (map_delete m k) \<le> map_size m"
  by (simp add: map_delete_def map_size_def)

lemma map_delete_maxSize [simp]: "maxSize (map_delete m k) = maxSize m"
  by (simp add: map_delete_def)

lemma map_set_maxSize [simp]: "maxSize (map_set m k v) = maxSize m"
  by (simp add: map_set_def)

lemma map_has_delete [simp]: "\<not> map_has (map_delete m k) k"
  by (auto simp: map_has_def map_delete_def)

lemma map_delete_absent: "\<not> map_has m k \<Longrightarrow> map_delete m k = m"
proof -
  assume "\<not> map_has m k"
  then have "filter (\<lambda>e. fst e \<noteq> k) (entries m) = entries m"
    by (intro filter_True) (auto simp: map_has_def)
  then show ?thesis by (simp add: map_delete_def)
qed

lemma map_set_after_delete:
  "map_set (map_delete m k) k v = m\<lparr>entries := filter (\<lambda>e. fst e \<noteq> k) (entries m) @ [(k, v)]\<rparr>"
  using map_has_delete [of m k] by (simp add: map_set_def) (simp add: map_delete_def)

lemma lru_set_entries:
  "entries (lru_set m k v) =
     (let es = filter (\<lambda>e. fst e \<noteq> k) (entries m) @ [(k, v)]
      in if length es > maxSize m then filter (\<lambda>e. fst e \<noteq> fst (hd es)) es else es)"
proof -
  have m1: "(if map_has m k then map_delete m k else m) = map_delete m k"
    by (simp add: map_delete_absent)
  show ?thesis
    unfolding lru_set_def m1 map_set_after_delete Let_def
    by (cases "filter (\<lambda>e. fst e \<noteq> k) (entries m)")
       (simp_all add: map_size_def map_keys_def map_delete_def)
qed

lemma lru_set_maxSize [simp]: "maxSize (lru_set m k v) = maxSize m"
  by (auto simp: lru_set_def Let_def split: list.splits)

lemma lru_get_entries:
  "entries (snd (lru_get m k)) =
     (case map_of (entries m) k of None \<Rightarrow> entries m
      | Some v \<Rightarrow> filter (\<lambda>e. fst e \<noteq> k) (entries m) @ [(k, v)])"
  apply (auto simp: lru_get_def map_lookup_def map_set_def map_delete_def map_has_def split: option.splits)
  apply (metis map_of_eq_None_iff option.distinct(1))
  done


lemma filter_hd_shorter:
  "es \<noteq> [] \<Longrightarrow> length (filter (\<lambda>e. fst e \<noteq> fst (hd es)) es) < length es"
  by (cases es) (simp_all add: le_imp_less_Suc)

lemma filter_present_shorter:
  "k \<in> fst ` set es \<Longrightarrow> length (filter (\<lambda>e. fst e \<noteq> k) es) < length es"
  by (induction es) (auto simp: le_imp_less_Suc)

lemma distinct_keys_moved:
  "distinct (map fst es) \<Longrightarrow> distinct (map fst (filter (\<lambda>e. fst e \<noteq> k) es @ [(k, v)]))"
  by (induction es) auto

lemma distinct_keys_filter:
  "distinct (map fst es) \<Longrightarrow> distinct (map fst (filter P es))"
  by (induction es) auto

lemma lru_set_inv: "map_size m \<le> maxSize m \<Longrightarrow> map_size (lru_set m k v) \<le> maxSize m"
proof -
  assume le: "map_size m \<le> maxSize m"
  let ?es = "filter (\<lambda>e. fst e \<noteq> k) (entries m) @ [(k, v)]"
  have len: "length ?es \<le> Suc (maxSize m)"
    using le le_trans [OF length_filter_le] by (fastforce simp: map_size_def)
  have "length (filter (\<lambda>e. fst e \<noteq> fst (hd ?es)) ?es) < length ?es"
    by (rule filter_hd_shorter) simp
  with len show ?thesis
    unfolding map_size_def lru_set_entries Let_def by (simp del: filter_append)
qed

lemma lru_set_distinct: "distinct (map_keys m) \<Longrightarrow> distinct (map_keys (lru_set m k v))"
  unfolding map_keys_def lru_set_entries Let_def
  using distinct_keys_moved [of "entries m" k v]
  by (simp add: distinct_keys_filter del: filter_append map_append)

lemma lru_get_size: "map_size (snd (lru_get m k)) \<le> map_size m"
proof (cases "map_of (entries m) k")
  case None
  then show ?thesis by (simp add: map_size_def lru_get_entries)
next
  case (Some v)
  then have "k \<in> fst ` set (entries m)" by (metis map_of_eq_None_iff option.distinct(1))
  from filter_present_shorter [OF this] Some show ?thesis
    by (simp add: map_size_def lru_get_entries)
qed

lemma lru_get_maxSize [simp]: "maxSize (snd (lru_get m k)) = maxSize m"
  by (simp add: lru_get_def map_delete_def map_set_def split: option.splits)

lemma lru_get_distinct: "distinct (map_keys m) \<Longrightarrow> distinct (map_keys (snd (lru_get m k)))"
  unfolding map_keys_def lru_get_entries
  using distinct_keys_moved [of "entries m" k]
  by (simp split: option.splits del: filter_append map_append)

lemma lru_apply_inv: "lru_inv m \<Longrightarrow> lru_inv (lru_apply m op) \<and> maxSize (lru_apply m op) = maxSize m"
  using lru_get_size [of m] 
  by (cases op) (auto simp: lru_inv_def lru_set_inv lru_set_distinct lru_get_distinct intro: le_trans)

lemma lru_run_inv: "lru_inv m \<Longrightarrow> lru_inv (lru_run m ops) \<and> maxSize (lru_run m ops) = maxSize m"
  unfolding lru_run_def
  by (induction ops arbitrary: m) (simp_all add: lru_apply_inv)


lemma lru_get_absent: "\<not> map_has m k \<Longrightarrow> lru_get m k = (None, m)"
  by (simp add: lru_get_def)

lemma lru_get_present:
  "map_lookup m k = Some v \<Longrightarrow>
   lru_get m k = (Some v, m\<lparr>entries := filter (\<lambda>e. fst e \<noteq> k) (entries m) @ [(k, v)]\<rparr>)"
proof -
  assume l: "map_lookup m k = Some v"
  then have "map_has m k"
    unfolding map_lookup_def map_has_def by (metis map_of_eq_None_iff option.distinct(1))
  with l show ?thesis by (simp add: lru_get_def map_set_after_delete)
qed

lemma lru_set_present:
  assumes "map_size m \<le> maxSize m" and "map_has m k"
  shows "entries (lru_set m k w) = filter (\<lambda>e. fst e \<noteq> k) (entries m) @ [(k, w)]"
proof -
  have "length (filter (\<lambda>e. fst e \<noteq> k) (entries m)) < length (entries m)"
    using assms(2) by (intro filter_present_shorter) (simp add: map_has_def)
  with assms(1) show ?thesis
    unfolding lru_set_entries Let_def map_size_def by (simp del: filter_append)
qed

lemma filter_absent:
  "k \<notin> fst ` set es \<Longrightarrow> filter (\<lambda>e. fst e \<noteq> k) es = es"
  by (intro filter_True) auto

lemma lru_set_room:
  assumes "\<not> map_has m k" and "map_size m < maxSize m"
  shows "entries (lru_set m k w) = entries m @ [(k, w)]"
  using assms unfolding lru_set_entries Let_def map_size_def map_has_def
  by (simp add: filter_absent)

lemma lru_set_full:
  assumes "distinct (map_keys m)" and "\<not> map_has m k" and "map_size m = maxSize m"
    and "entries m \<noteq> []"
  shows "entries (lru_set m k w) = tl (entries m) @ [(k, w)]"
proof -
  obtain a x rest where es: "entries m = (a, x) # rest"
    using assms(4) by (cases "entries m") auto
  have ka: "k \<noteq> a" and kr: "k \<notin> fst ` set rest" and ar: "a \<notin> fst ` set rest"
    using assms(1,2) by (auto simp: es map_has_def map_keys_def)
  show ?thesis
    using assms(3) ka unfolding lru_set_entries Let_def map_size_def es
    by (simp add: filter_absent [OF kr] filter_absent [OF ar])
qed

text \<open>
  Claim C6. A map of capacity \<open>N\<close> never holds more than \<open>N\<close> entries, whatever
  sequence of \<^verbatim>\<open>get\<close> and \<^verbatim>\<open>set\<close> calls it receives (from a map within its cap, and so
  from a new one). A \<^verbatim>\<open>get\<close> of an absent key returns nothing and leaves the map as it
  was; a \<^verbatim>\<open>get\<close> or a \<^verbatim>\<open>set\<close> of a present key moves that key to the most recent
  position. A \<^verbatim>\<open>set\<close> of a new key into a full map removes exactly the first, least
  recently used, entry; with room left it removes nothing. So in a full map that starts
  with the keys \<open>a\<close>, \<open>b\<close>, a \<^verbatim>\<open>get\<close> of \<open>a\<close> followed by the insertion of a new key
  evicts \<open>b\<close> and keeps \<open>a\<close>.
\<close>

theorem lru_capacity_and_eviction:
  assumes "distinct (map_keys m)" and "map_size m \<le> maxSize m"
  shows "map_size (lru_run (m :: ('k, 'v) lrumap) ops) \<le> maxSize m
     \<and> map_size (lru_run (new_LRUMap n) (ops' :: ('k, 'v) lru_op list)) \<le> n
     \<and> (\<not> map_has m k \<longrightarrow> lru_get m k = (None, m))
     \<and> (map_lookup m k = Some v \<longrightarrow>
          lru_get m k = (Some v, m\<lparr>entries := filter (\<lambda>e. fst e \<noteq> k) (entries m) @ [(k, v)]\<rparr>))
     \<and> (map_has m k \<longrightarrow>
          entries (lru_set m k w) = filter (\<lambda>e. fst e \<noteq> k) (entries m) @ [(k, w)])
     \<and> (\<not> map_has m k \<and> map_size m < maxSize m \<longrightarrow>
          entries (lru_set m k w) = entries m @ [(k, w)])
     \<and> (\<not> map_has m k \<and> map_size m = maxSize m \<and> entries m \<noteq> [] \<longrightarrow>
          entries (lru_set m k w) = tl (entries m) @ [(k, w)])
     \<and> (\<forall>a x b y rest.
          entries m = (a, x) # (b, y) # rest \<and> map_size m = maxSize m \<and> \<not> map_has m k \<longrightarrow>
          entries (lru_set (snd (lru_get m a)) k w) = rest @ [(a, x), (k, w)])"
proof -
  have inv: "lru_inv m" using assms by (simp add: lru_inv_def)
  have c1: "map_size (lru_run m ops) \<le> maxSize m"
    using lru_run_inv [OF inv, of ops] by (simp add: lru_inv_def)
  have "lru_inv (new_LRUMap n :: ('k, 'v) lrumap)"
    by (simp add: lru_inv_def new_LRUMap_def map_keys_def map_size_def)
  from lru_run_inv [OF this, of ops']
  have c2: "map_size (lru_run (new_LRUMap n) ops') \<le> n"
    by (simp add: lru_inv_def new_LRUMap_def)
  have c8: "entries (lru_set (snd (lru_get m a)) k w) = rest @ [(a, x), (k, w)]"
    if es: "entries m = (a, x) # (b, y) # rest" and full: "map_size m = maxSize m"
      and abs: "\<not> map_has m k" for a x b y rest
  proof -
    have d: "a \<noteq> b" "a \<notin> fst ` set rest" "b \<notin> fst ` set rest"
      using assms(1) by (auto simp: es map_keys_def)
    have "map_lookup m a = Some x" by (simp add: map_lookup_def es)
    from lru_get_present [OF this]
    have g: "snd (lru_get m a) = m\<lparr>entries := (b, y) # rest @ [(a, x)]\<rparr>"
      using d by (simp add: es filter_absent)
    let ?m = "m\<lparr>entries := (b, y) # rest @ [(a, x)]\<rparr>"
    have "entries (lru_set ?m k w) = tl (entries ?m) @ [(k, w)]"
    proof (rule lru_set_full)
      show "distinct (map_keys ?m)" using assms(1) by (auto simp: map_keys_def es)
      show "\<not> map_has ?m k" using abs by (auto simp: map_has_def es)
      show "map_size ?m = maxSize ?m" using full by (simp add: map_size_def es)
      show "entries ?m \<noteq> []" by simp
    qed
    then show ?thesis by (simp add: g)
  qed
  show ?thesis
    using c1 c2 c8 lru_get_absent [of m k] lru_get_present [of m k v]
      lru_set_present [OF assms(2), of k w] lru_set_room [of m k w]
      lru_set_full [OF assms(1), of k w]
    by blast
qed

theorem lru_capacity_and_eviction_witness:
  "distinct (map_keys \<lparr>maxSize = 2, entries = [(1::nat, 10::nat), (2, 20)]\<rparr>)
   \<and> map_size \<lparr>maxSize = 2, entries = [(1::nat, 10::nat), (2, 20)]\<rparr> \<le> 2
   \<and> \<not> map_has \<lparr>maxSize = 2, entries = [(1::nat, 10::nat), (2, 20)]\<rparr> 3
   \<and> map_size (lru_run \<lparr>maxSize = 2, entries = [(1::nat, 10::nat), (2, 20)]\<rparr> [Get 1, Set 3 30]) \<le> 2
   \<and> lru_get \<lparr>maxSize = 2, entries = [(1::nat, 10::nat), (2, 20)]\<rparr> 3
       = (None, \<lparr>maxSize = 2, entries = [(1, 10), (2, 20)]\<rparr>)
   \<and> entries (lru_set \<lparr>maxSize = 2, entries = [(1::nat, 10::nat), (2, 20)]\<rparr> 3 30) = [(2, 20), (3, 30)]
   \<and> entries (lru_set (snd (lru_get \<lparr>maxSize = 2, entries = [(1::nat, 10::nat), (2, 20)]\<rparr> 1)) 3 30)
       = [(1, 10), (3, 30)]
   \<and> map_lookup \<lparr>maxSize = 3, entries = [(1::nat, 10::nat), (2, 20)]\<rparr> 1 = Some 10
   \<and> lru_get \<lparr>maxSize = 3, entries = [(1::nat, 10::nat), (2, 20)]\<rparr> 1
       = (Some 10, \<lparr>maxSize = 3, entries = [(2, 20), (1, 10)]\<rparr>)
   \<and> entries (lru_set \<lparr>maxSize = 3, entries = [(1::nat, 10::nat), (2, 20)]\<rparr> 1 11) = [(2, 20), (1, 11)]
   \<and> entries (lru_set \<lparr>maxSize = 3, entries = [(1::nat, 10::nat), (2, 20)]\<rparr> 4 40)
       = [(1, 10), (2, 20), (4, 40)]"
  using lru_capacity_and_eviction
          [of "\<lparr>maxSize = 2, entries = [(1::nat, 10::nat), (2, 20)]\<rparr>" "[Get 1, Set 3 30]" 0 "[]" 3 0 30]
        lru_capacity_and_eviction
          [of "\<lparr>maxSize = 3, entries = [(1::nat, 10::nat), (2, 20)]\<rparr>" "[]" 0 "[]" 1 10 11]
        lru_capacity_and_eviction
          [of "\<lparr>maxSize = 3, entries = [(1::nat, 10::nat), (2, 20)]\<rparr>" "[]" 0 "[]" 4 0 40]
  by (auto simp: map_keys_def map_size_def map_has_def map_lookup_def)

section \<open>Properties of the rate limiter\<close>

lemma map_has_lookup: "map_has m k \<longleftrightarrow> map_lookup m k \<noteq> None"
  by (simp add: map_has_def map_lookup_def map_of_eq_None_iff)

lemma lru_get_fst: "fst (lru_get m k) = map_lookup m k"
  by (auto simp: lru_get_def map_has_lookup split: option.splits)

lemma map_of_moved:
  "distinct (map fst es) \<Longrightarrow>
   map_of (filter (\<lambda>e. fst e \<noteq> k) es @ [(k, v)]) k' = (if k' = k then Some v else map_of es k')"
  by (induction es) (auto simp: map_of_eq_None_iff image_iff)

lemma lru_get_lookup:
  assumes "distinct (map_keys m)"
  shows "map_lookup (snd (lru_get m k)) k' = map_lookup m k'"
  using assms map_of_moved [of "entries m" k _ k']
  by (auto simp: map_lookup_def lru_get_entries map_keys_def split: option.splits simp del: map_of_append)

lemma map_of_drop_hd:
  "distinct (map fst es) \<Longrightarrow> es \<noteq> [] \<Longrightarrow> k' \<noteq> fst (hd es) \<Longrightarrow>
   map_of (filter (\<lambda>e. fst e \<noteq> fst (hd es)) es) k' = map_of es k'"
  by (cases es) (auto simp: filter_absent)

lemma hd_filter_sat: "filter P ys \<noteq> [] \<Longrightarrow> P (hd (filter P ys))"
  by (induction ys) auto

lemma lru_set_lookup_same:
  assumes "distinct (map_keys m)" and "map_size m \<le> maxSize m" and "0 < maxSize m"
  shows "map_lookup (lru_set m k v) k = Some v"
proof -
  let ?f = "filter (\<lambda>e. fst e \<noteq> k) (entries m)"
  let ?es = "?f @ [(k, v)]"
  have d: "distinct (map fst ?es)"
    using assms(1) distinct_keys_moved [of "entries m" k v] by (simp add: map_keys_def)
  have look: "map_of ?es k = Some v"
    using map_of_moved [of "entries m" k v k] assms(1) by (simp add: map_keys_def)
  show ?thesis
  proof (cases "length ?es > maxSize m")
    case False
    then show ?thesis using look
      unfolding map_lookup_def lru_set_entries Let_def by (simp del: map_of_append filter_append)
  next
    case True
    then have "?f \<noteq> []" using assms(3) by auto
    then have "fst (hd ?f) \<noteq> k" by (rule hd_filter_sat)
    with \<open>?f \<noteq> []\<close> have "fst (hd ?es) \<noteq> k" by simp
    then have "map_of (filter (\<lambda>e. fst e \<noteq> fst (hd ?es)) ?es) k = map_of ?es k"
      using d by (intro map_of_drop_hd) auto
    with True look show ?thesis
      unfolding map_lookup_def lru_set_entries Let_def by (simp del: map_of_append filter_append)
  qed
qed

lemma lru_get_inv: "lru_inv m \<Longrightarrow> lru_inv (snd (lru_get m k))"
  using lru_apply_inv [of m "Get k"] by simp

lemma lru_set_inv': "lru_inv m \<Longrightarrow> lru_inv (lru_set m k v)"
  using lru_apply_inv [of m "Set k v"] by simp

text \<open>One call of a limiter, read off the store.\<close>

lemma rateLimiter_step:
  fixes now W :: int and hdr :: "string option" and store :: rate_store and L :: nat
  assumes inv: "lru_inv store" and cap: "0 < maxSize store"
  defines "valid \<equiv> filter (\<lambda>time. time > now - W) (recorded store (client_key hdr))"
  shows "lru_inv (snd (rateLimiter L W hdr now store))
     \<and> maxSize (snd (rateLimiter L W hdr now store)) = maxSize store
     \<and> (if length valid < L
         then fst (rateLimiter L W hdr now store) = Allowed
            \<and> recorded (snd (rateLimiter L W hdr now store)) (client_key hdr) = valid @ [now]
         else fst (rateLimiter L W hdr now store) = RateLimited 0
            \<and> recorded (snd (rateLimiter L W hdr now store)) (client_key hdr)
                = recorded store (client_key hdr))"
proof -
  let ?key = "client_key hdr"
  let ?s1 = "if \<not> map_has store ?key then lru_set store ?key [] else store"
  have inv1: "lru_inv ?s1" using inv by (simp add: lru_set_inv')
  have cap1: "maxSize ?s1 = maxSize store" by simp
  have look1: "map_lookup ?s1 ?key = Some (recorded store ?key)"
  proof (cases "map_has store ?key")
    case True
    then show ?thesis by (auto simp: recorded_def map_has_lookup)
  next
    case False
    then have "recorded store ?key = []" by (simp add: recorded_def map_has_lookup)
    with False show ?thesis
      using lru_set_lookup_same [of store ?key "[]"] inv cap by (simp add: lru_inv_def)
  qed
  let ?got = "lru_get ?s1 ?key"
  have g1: "fst ?got = Some (recorded store ?key)" using look1 by (simp only: lru_get_fst)
  have inv2: "lru_inv (snd ?got)" using inv1 by (rule lru_get_inv)
  have cap2: "maxSize (snd ?got) = maxSize store" by (simp only: lru_get_maxSize cap1)
  have look2: "map_lookup (snd ?got) ?key = Some (recorded store ?key)"
    using lru_get_lookup [of ?s1 ?key ?key] inv1 look1 by (simp only: lru_inv_def)
  have res: "rateLimiter L W hdr now store =
      (if length valid \<ge> L then (RateLimited (ceil_seconds (now - W + W - now)), snd ?got)
       else (Allowed, lru_set (snd ?got) ?key (valid @ [now])))"
    unfolding rateLimiter_def Let_def g1 valid_def by simp
  have z: "ceil_seconds (now - W + W - now) = 0" by (simp add: ceil_seconds_def)
  show ?thesis
  proof (cases "length valid < L")
    case True
    then have r: "rateLimiter L W hdr now store = (Allowed, lru_set (snd ?got) ?key (valid @ [now]))"
      unfolding res by simp
    have "map_lookup (lru_set (snd ?got) ?key (valid @ [now])) ?key = Some (valid @ [now])"
      using inv2 cap cap2 by (intro lru_set_lookup_same) (simp_all add: lru_inv_def)
    then show ?thesis
      unfolding r using True inv2 cap2 by (simp add: lru_set_inv' recorded_def)
  next
    case False
    then have r: "rateLimiter L W hdr now store = (RateLimited 0, snd ?got)"
      unfolding res z by simp
    show ?thesis unfolding r using False inv2 cap2 look2 by (simp add: recorded_def)
  qed
qed





section \<open>Properties of the token check\<close>

text \<open>
  Claim C9. For a session that holds a stored token, presenting that token more than 24
  hours after it was issued is rejected with 403 and removes the session's entry from the
  store; presenting it less than 24 hours after it was issued passes the check and keeps
  the entry. The session id and the token are non-empty strings, as the ids and tokens
  the server issues are.
\<close>

theorem csrf_expired_token_rejected_and_removed:
  assumes "distinct (map_keys store)" and "map_lookup store userID = Some d"
    and "token d = presented" and "presented \<noteq> []" and "userID \<noteq> []"
  shows "(now - timestamp d > CSRF_TOKEN_EXPIRY \<longrightarrow>
            fst (csrfProtection (Some presented) (Some userID) now store) = Csrf403 ''CSRF token expired''
          \<and> \<not> map_has (snd (csrfProtection (Some presented) (Some userID) now store)) userID)
     \<and> (now - timestamp d < CSRF_TOKEN_EXPIRY \<longrightarrow>
            fst (csrfProtection (Some presented) (Some userID) now store) = CsrfNext
          \<and> map_lookup (snd (csrfProtection (Some presented) (Some userID) now store)) userID = Some d)"
proof -
  have g: "fst (lru_get store userID) = Some d"
    using assms(2) by (simp only: lru_get_fst)
  have l: "map_lookup (snd (lru_get store userID)) userID = Some d"
    using lru_get_lookup [OF assms(1), of userID userID] assms(2) by simp
  show ?thesis
    using assms(3,4,5) l
    by (simp add: csrfProtection_def Let_def g)
qed

theorem csrf_expired_token_rejected_and_removed_witness:
  "distinct (map_keys (issue_csrf ''u1'' ''c0ffee'' 0 csrfTokenStore_init))
   \<and> map_lookup (issue_csrf ''u1'' ''c0ffee'' 0 csrfTokenStore_init) ''u1''
        = Some \<lparr>token = ''c0ffee'', timestamp = 0\<rparr>
   \<and> fst (csrfProtection (Some ''c0ffee'') (Some ''u1'') (24 * 60 * 60 * 1000 + 1000)
            (issue_csrf ''u1'' ''c0ffee'' 0 csrfTokenStore_init)) = Csrf403 ''CSRF token expired''
   \<and> \<not> map_has (snd (csrfProtection (Some ''c0ffee'') (Some ''u1'') (24 * 60 * 60 * 1000 + 1000)
            (issue_csrf ''u1'' ''c0ffee'' 0 csrfTokenStore_init))) ''u1''
   \<and> fst (csrfProtection (Some ''c0ffee'') (Some ''u1'') 1000
            (issue_csrf ''u1'' ''c0ffee'' 0 csrfTokenStore_init)) = CsrfNext"
proof -
  let ?s = "issue_csrf ''u1'' ''c0ffee'' 0 csrfTokenStore_init"
  have e: "?s = \<lparr>maxSize = 5000, entries = [(''u1'', \<lparr>token = ''c0ffee'', timestamp = 0\<rparr>)]\<rparr>"
    by (simp add: issue_csrf_def csrfTokenStore_init_def new_LRUMap_def lru_set_def map_has_def
        map_set_def map_size_def)
  have d: "distinct (map_keys ?s)" unfolding e by (simp add: map_keys_def)
  have l: "map_lookup ?s ''u1'' = Some \<lparr>token = ''c0ffee'', timestamp = 0\<rparr>"
    unfolding e by (simp add: map_lookup_def)
  have t: "token \<lparr>token = ''c0ffee'', timestamp = 0\<rparr> = ''c0ffee''" by simp
  have n1: "''c0ffee'' \<noteq> []" and n2: "''u1'' \<noteq> []" by simp_all
  note late = csrf_expired_token_rejected_and_removed [OF d l t n1 n2, of "24 * 60 * 60 * 1000 + 1000"]
  note early = csrf_expired_token_rejected_and_removed [OF d l t n1 n2, of 1000]
  have x: "(24 * 60 * 60 * 1000 + 1000 :: int) - timestamp \<lparr>token = ''c0ffee'', timestamp = 0\<rparr> > CSRF_TOKEN_EXPIRY"
    by (simp add: CSRF_TOKEN_EXPIRY_def)
  have y: "(1000 :: int) - timestamp \<lparr>token = ''c0ffee'', timestamp = 0\<rparr> < CSRF_TOKEN_EXPIRY"
    by (simp add: CSRF_TOKEN_EXPIRY_def)
  show ?thesis using d l late early x y by blast
qed

section \<open>The two limits share one store\<close>

lemmas store_defs = map_has_def map_lookup_def map_delete_def map_set_def map_size_def map_keys_def
  lru_set_def lru_get_def new_LRUMap_def rateLimitStore_init_def client_key_def

lemma other_request_first:
  "other_request (Some ''1.2.3.4'') 0 rateLimitStore_init
     = \<lparr>maxSize = 10000, entries = [(''1.2.3.4'', [0])]\<rparr>"
  by (simp add: other_request_def globalLimiter_def rateLimiter_def store_defs)

lemma other_request_second:
  "other_request (Some ''1.2.3.4'') 1000 \<lparr>maxSize = 10000, entries = [(''1.2.3.4'', [0])]\<rparr>
     = \<lparr>maxSize = 10000, entries = [(''1.2.3.4'', [0, 1000])]\<rparr>"
  by (simp add: other_request_def globalLimiter_def rateLimiter_def store_defs)

lemma clean_jack: "cleanUsername ''jack'' = ''jack''"
  by (simp add: cleanUsername_def toLowerCase_def js_trim_def strip_at_def js_lower_char_def
      js_space_def)

lemma jack_ok: "username_format_ok ''jack''"
  by (simp add: username_format_ok_def word_char_def)

lemma lower_jack: "toLowerCase ''jack'' = ''jack''"
  by (simp add: toLowerCase_def js_lower_char_def)

text \<open>
  Claim C2, evaluated on the code. A client that has never asked for a profile sends two
  requests to other routes and then its first profile request, which misses the cache.
  The handler finds three times under the client's key, all of them written by the global
  middleware, and answers 429 with the daily-limit message before any lookup is made.
\<close>

theorem daily_limit_counts_global_requests:
  "fst (user_request
          \<lparr>xClient = True, DISABLE_RATE_LIMIT = False,
            getByUsername = (\<lambda>_. XUser ''profile''), profile_write_ok = True\<rparr>
          ''jack'' (Some ''1.2.3.4'') 2000
          (other_request (Some ''1.2.3.4'') 1000
             (other_request (Some ''1.2.3.4'') 0 rateLimitStore_init), Map.empty))
     = UDailyLimit (Some 86398)"
  unfolding other_request_first other_request_second
  by (simp add: user_request_def user_route_def globalLimiter_def rateLimiter_def store_defs
      clean_jack jack_ok lower_jack getCachedProfile_def ceil_seconds_def)

text \<open>
  Claim C3, evaluated on the code. One profile request at time 0 misses the cache and is
  served by the provider; the store then holds two times for the client, one written by
  the middleware and one by the handler's own limit. The cleanup that runs an hour later
  keeps only times of the last 15 minutes, finds none, and deletes the client's key, so the
  call counted against the 24-hour limit is forgotten 23 hours early.
\<close>

theorem cleanup_forgets_daily_limit_event:
  "recorded (fst (snd (user_request
          \<lparr>xClient = True, DISABLE_RATE_LIMIT = False,
            getByUsername = (\<lambda>_. XUser ''profile''), profile_write_ok = True\<rparr>
          ''jack'' (Some ''1.2.3.4'') 0 (rateLimitStore_init, Map.empty)))) ''1.2.3.4'' = [0, 0]
   \<and> cleanup_rate_limits (60 * 60 * 1000)
        (fst (snd (user_request
          \<lparr>xClient = True, DISABLE_RATE_LIMIT = False,
            getByUsername = (\<lambda>_. XUser ''profile''), profile_write_ok = True\<rparr>
          ''jack'' (Some ''1.2.3.4'') 0 (rateLimitStore_init, Map.empty))))
       = Some \<lparr>maxSize = 10000, entries = []\<rparr>"
proof -
  have s: "fst (snd (user_request
          \<lparr>xClient = True, DISABLE_RATE_LIMIT = False,
            getByUsername = (\<lambda>_. XUser ''profile''), profile_write_ok = True\<rparr>
          ''jack'' (Some ''1.2.3.4'') 0 (rateLimitStore_init, Map.empty)))
      = \<lparr>maxSize = 10000, entries = [(''1.2.3.4'', [0, 0])]\<rparr>"
    by (simp add: user_request_def user_route_def globalLimiter_def rateLimiter_def store_defs
        clean_jack jack_ok lower_jack getCachedProfile_def)
  have c: "cleanup_rate_limits (60 * 60 * 1000) \<lparr>maxSize = 10000, entries = [(''1.2.3.4'', [0, 0])]\<rparr>
      = Some \<lparr>maxSize = 10000, entries = []\<rparr>"
    by (simp add: cleanup_rate_limits.simps maxWindow_def map_delete_def)
  show ?thesis unfolding s c by (simp add: recorded_def map_lookup_def)
qed

text \<open>The cleanup returns only once the store is empty.\<close>

lemma cleanup_returns_empty:
  assumes "cleanup_rate_limits now store = Some store'"
  shows "entries store' = []"
  by (rule cleanup_rate_limits.raw_induct [where P = "\<lambda>now store y. entries y = []", OF _ assms])
     (auto simp: Let_def split: list.splits if_splits)

text \<open>
  While some client has a request of the last 15 minutes on record, the walk hands that
  client's entry out again and again and never ends.
\<close>

lemma map_delete_inv: "lru_inv m \<Longrightarrow> lru_inv (map_delete m k)"
  using map_delete_size [of m k]
  by (auto simp: lru_inv_def map_keys_def map_delete_def distinct_keys_filter)

lemma has_recent_delete:
  assumes "has_recent now store" and "distinct (map_keys store)" and "entries store = e # rest"
    and "filter (\<lambda>time. time > now - maxWindow) (snd e) = []"
  shows "has_recent now (map_delete store (fst e))"
proof -
  from assms(1) obtain e' time where e': "e' \<in> set (entries store)" "time \<in> set (snd e')"
    "time > now - maxWindow" by (auto simp: has_recent_def)
  have "time \<notin> set (snd e)" using assms(4) e'(3) by (auto simp: filter_empty_conv)
  then have "e' \<noteq> e" using e'(2) by auto
  then have "e' \<in> set rest" using e'(1) assms(3) by simp
  then have "fst e' \<in> fst ` set rest" by (rule imageI)
  moreover have "fst e \<notin> fst ` set rest" using assms(2,3) by (simp add: map_keys_def)
  ultimately have "fst e' \<noteq> fst e" by metis
  then have "e' \<in> set (entries (map_delete store (fst e)))"
    using e'(1) by (simp add: map_delete_def)
  then show ?thesis using e'(2,3) unfolding has_recent_def by blast
qed

lemma has_recent_set:
  assumes "lru_inv store" and "entries store = e # rest"
    and "filter (\<lambda>time. time > now - maxWindow) (snd e) \<noteq> []"
  shows "has_recent now (lru_set store (fst e) (filter (\<lambda>time. time > now - maxWindow) (snd e)))"
proof -
  let ?valid = "filter (\<lambda>time. time > now - maxWindow) (snd e)"
  have "map_has store (fst e)" by (simp add: map_has_def assms(2))
  then have "entries (lru_set store (fst e) ?valid)
      = filter (\<lambda>x. fst x \<noteq> fst e) (entries store) @ [(fst e, ?valid)]"
    using assms(1) by (intro lru_set_present) (simp_all add: lru_inv_def)
  then have in_set: "(fst e, ?valid) \<in> set (entries (lru_set store (fst e) ?valid))" by simp
  from assms(3) obtain time where "time \<in> set ?valid" by (cases ?valid) auto
  then have "time \<in> set (snd (fst e, ?valid))" and "time > now - maxWindow" by simp_all
  with in_set show ?thesis unfolding has_recent_def by blast
qed

lemma cleanup_never_ends:
  assumes "lru_inv store" and "has_recent now store"
  shows "cleanup_rate_limits now store = None"
proof (rule ccontr)
  assume "cleanup_rate_limits now store \<noteq> None"
  then obtain store' where ret: "cleanup_rate_limits now store = Some store'" by auto
  have "lru_inv store \<longrightarrow> has_recent now store \<longrightarrow> False"
  proof (rule cleanup_rate_limits.raw_induct
      [where P = "\<lambda>now store y. lru_inv store \<longrightarrow> has_recent now store \<longrightarrow> False", OF _ ret])
    fix f :: "int \<Rightarrow> rate_store \<Rightarrow> rate_store option" and now store y
    assume IH: "\<And>n s y. f n s = Some y \<Longrightarrow> lru_inv s \<longrightarrow> has_recent n s \<longrightarrow> False"
      and body: "(case entries store of
        [] \<Rightarrow> Some store
      | e # _ \<Rightarrow>
          (let ip = fst e; requests = snd e;
               validRequests = filter (\<lambda>time. time > now - maxWindow) requests
           in if length validRequests = 0
              then f now (map_delete store ip)
              else f now (lru_set store ip validRequests))) = Some y"
    show "lru_inv store \<longrightarrow> has_recent now store \<longrightarrow> False"
    proof (intro impI)
      assume inv: "lru_inv store" and rec: "has_recent now store"
      from rec obtain e rest where es: "entries store = e # rest"
        by (cases "entries store") (auto simp: has_recent_def)
      let ?valid = "filter (\<lambda>time. time > now - maxWindow) (snd e)"
      show False
      proof (cases "?valid = []")
        case True
        with body es have "f now (map_delete store (fst e)) = Some y" by (simp add: Let_def)
        from IH [OF this] map_delete_inv [OF inv]
          has_recent_delete [OF rec _ es True] inv
        show False by (simp add: lru_inv_def)
      next
        case False
        with body es have "f now (lru_set store (fst e) ?valid) = Some y" by (simp add: Let_def)
        from IH [OF this] lru_set_inv' [OF inv] has_recent_set [OF inv es False]
        show False by simp
      qed
    qed
  qed
  with assms show False by simp
qed

text \<open>
  A profile request answered from a fresh cache entry returns before the handler's limit is
  reached: the handler leaves the store as it found it.
\<close>

lemma user_route_cache_hit:
  assumes "xClient env" and "username \<noteq> []" and "username_format_ok (cleanUsername username)"
    and "getCachedProfile db (cleanUsername username) = Some cached"
    and "now - cached_at cached < PROFILE_CACHE_TTL"
  shows "user_route env username hdr now (store, db) = (UProfile (data cached), store, db)"
  using assms by (simp add: user_route_def)


section \<open>Properties of the numbers\<close>

lemma bits_pos: "0 < i \<Longrightarrow> 0 < bits i"
  by (subst bits.simps) simp

lemma bits_le: "0 < i \<Longrightarrow> i < 2 ^ n \<Longrightarrow> bits i \<le> n"
proof (induction n arbitrary: i)
  case 0
  then show ?case by simp
next
  case (Suc n)
  show ?case
  proof (cases "i div 2 = 0")
    case True
    then have "bits (i div 2) = 0" by (subst bits.simps) simp
    then show ?thesis using Suc.prems by (subst bits.simps) simp
  next
    case False
    then have p: "0 < i div 2" using Suc.prems(1) by (simp add: pos_imp_zdiv_pos_iff)
    have "i div 2 < 2 ^ n" using Suc.prems(2) by simp
    from Suc.IH [OF p this] show ?thesis using Suc.prems(1) by (subst bits.simps) simp
  qed
qed

lemma round_half_even_int: "round_half_even (of_int n) = n"
  by (simp add: round_half_even_def)

text \<open>An integer below \<open>2^53\<close> is a double.\<close>

lemma to_double_int:
  assumes "0 < i" and "i < 2 ^ 53"
  shows "to_double (of_int i) = Number (of_int i)"
proof -
  define e where "e = int (bits i) - 1"
  have e0: "0 \<le> e" using bits_pos [OF assms(1)] by (simp add: e_def)
  have e52: "e \<le> 52" using bits_le [OF assms] by (simp add: e_def)
  have b: "binade (of_int i) = e" using assms(1) by (simp add: binade_def e_def)
  have m: "max e (- 1022) = e" using e0 by simp
  have q: "pow2 (e - 52) = 1 / 2 ^ nat (52 - e)"
    using e52 by (cases "e = 52") (simp_all add: pow2_def)
  have "(of_int i :: rat) / pow2 (e - 52) = of_int (i * 2 ^ nat (52 - e))"
    by (simp add: q)
  then have r: "round_half_even ((of_int i :: rat) / pow2 (e - 52)) = i * 2 ^ nat (52 - e)"
    by (simp only: round_half_even_int)
  have inv_q: "(of_int (i * 2 ^ nat (52 - e)) :: rat) * pow2 (e - 52) = of_int i"
    by (simp add: q)
  have "(of_int i :: rat) < of_int (2 ^ 53)" using assms(2) by (simp only: of_int_less_iff)
  also have "(of_int (2 ^ 53) :: rat) < 2 ^ 1024" by simp
  finally have small: "\<not> (of_int i :: rat) \<ge> 2 ^ 1024" by simp
  have pos: "(of_int i :: rat) \<noteq> 0" "\<bar>of_int i :: rat\<bar> = of_int i" "\<not> (of_int i :: rat) < 0"
    using assms(1) by simp_all
  show ?thesis
    unfolding to_double_def Let_def pos b m r inv_q using small pos by simp
qed

lemma to_double_numeral:
  "(numeral w :: int) < 2 ^ 53 \<Longrightarrow> to_double (numeral w) = Number (numeral w)"
  using to_double_int [of "numeral w"] by simp

lemma to_double_one: "to_double 1 = Number 1"
  using to_double_int [of 1] by simp

text \<open>The general step, for values that are not doubles themselves.\<close>

lemma to_double_round:
  assumes "0 < v" and "binade v = e" and "- 1022 \<le> e"
    and "round_half_even (v / pow2 (e - 52)) = n"
    and "of_int n * pow2 (e - 52) = r" and "r < 2 ^ 1024"
  shows "to_double v = Number r"
proof -
  have m: "max e (- 1022) = e" using assms(3) by simp
  have a: "\<bar>v\<bar> = v" "v \<noteq> 0" "\<not> v < 0" using assms(1) by simp_all
  show ?thesis
    unfolding to_double_def Let_def a assms(2) m assms(4) assms(5) using assms(6) a by simp
qed

lemmas parse_defs = parseInt_def parseFloat_def split_sign_def js_space_def is_digit_def
  is_hex_def digits_value_def hex_value_def exponent_part_def pow10_def

lemma parse_examples:
  "parseInt ''50'' = Number 50" "parseInt ''393'' = Number 393" "parseInt ''852'' = Number 852"
  "parseInt ''1200'' = Number 1200" "parseInt ''1000'' = Number 1000" "parseInt ''100'' = Number 100"
  "parseInt ''99'' = Number 99" "parseInt ''1201'' = Number 1201" "parseInt ''1001'' = Number 1001"
  "parseFloat ''3'' = Number 3" "parseFloat ''5'' = Number 5" "parseFloat ''4'' = Number 4"
  "parseFloat ''1'' = Number 1" "parseInt ''wide'' = NaN"
  by (simp_all add: parse_defs to_double_numeral to_double_one)

lemma float_text:
  "parseFloat ''2.5'' = to_double (5 / 2)"
  "parseFloat ''4.0000000000000001'' = to_double (40000000000000001 / 10 ^ 16)"
  "parseFloat ''0.99999999999999999'' = to_double (99999999999999999 / 10 ^ 17)"
  "parseFloat ''4.000000000000001'' = to_double (4000000000000001 / 10 ^ 15)"
  by (simp_all add: parse_defs)

lemma bits_small: "bits 0 = 0" "bits 1 = 1" "bits 2 = 2" "bits 3 = 2" "bits 4 = 3"
  by (simp_all add: bits.simps)

lemma round_half_even_down:
  "of_int f \<le> x \<Longrightarrow> x < of_int f + 1 / 2 \<Longrightarrow> round_half_even x = f"
proof -
  assume a: "of_int f \<le> x" "x < of_int f + 1 / 2"
  then have "\<lfloor>x\<rfloor> = f" by (intro floor_unique) simp_all
  then show ?thesis using a by (simp add: round_half_even_def)
qed

lemma round_half_even_up:
  "of_int f - 1 / 2 < x \<Longrightarrow> x < of_int f \<Longrightarrow> round_half_even x = f"
proof -
  assume a: "of_int f - 1 / 2 < x" "x < of_int f"
  then have "\<lfloor>x\<rfloor> = f - 1" by (intro floor_unique) simp_all
  then show ?thesis using a by (simp add: round_half_even_def)
qed

lemma binade_big:
  assumes "1 \<le> v" and "of_int f \<le> v" and "v < of_int f + 1" and "bits f = Suc e"
  shows "binade v = int e"
proof -
  have "\<lfloor>v\<rfloor> = f" using assms(2,3) by (intro floor_unique)
  then show ?thesis using assms(1,4) by (simp add: binade_def)
qed

lemma binade_small:
  assumes "v < 1" and "of_int c - 1 < 1 / v" and "1 / v \<le> of_int c" and "bits (c - 1) = e"
  shows "binade v = - int e"
proof -
  have "\<lceil>1 / v\<rceil> = c" using assms(2,3) by (intro ceiling_unique)
  then show ?thesis using assms(1,4) by (simp add: binade_def)
qed

lemma round_examples:
  "to_double (5 / 2) = Number (5 / 2)"
  "to_double (40000000000000001 / 10 ^ 16) = Number 4"
  "to_double (99999999999999999 / 10 ^ 17) = Number 1"
  "to_double (4000000000000001 / 10 ^ 15) = Number (4503599627370497 / 1125899906842624)"
proof -
  show "to_double (5 / 2) = Number (5 / 2)"
  proof (rule to_double_round [where e = 1 and n = "5 * 2 ^ 50"])
    show "binade (5 / 2) = 1"
      using binade_big [of "5 / 2" 2 1] by (simp add: bits_small)
    show "round_half_even (5 / 2 / pow2 (1 - 52)) = 5 * 2 ^ 50"
      by (rule round_half_even_down) (simp_all add: pow2_def)
  qed (simp_all add: pow2_def)
  show "to_double (40000000000000001 / 10 ^ 16) = Number 4"
  proof (rule to_double_round [where e = 2 and n = "2 ^ 52"])
    show "binade (40000000000000001 / 10 ^ 16) = 2"
      using binade_big [of "40000000000000001 / 10 ^ 16" 4 2] by (simp add: bits_small)
    show "round_half_even (40000000000000001 / 10 ^ 16 / pow2 (2 - 52)) = 2 ^ 52"
      by (rule round_half_even_down) (simp_all add: pow2_def)
  qed (simp_all add: pow2_def)
  show "to_double (99999999999999999 / 10 ^ 17) = Number 1"
  proof (rule to_double_round [where e = "- 1" and n = "2 ^ 53"])
    show "binade (99999999999999999 / 10 ^ 17) = - 1"
      using binade_small [of "99999999999999999 / 10 ^ 17" 2 1] by (simp add: bits_small)
    show "round_half_even (99999999999999999 / 10 ^ 17 / pow2 (- 1 - 52)) = 2 ^ 53"
      by (rule round_half_even_up) (simp_all add: pow2_def)
  qed (simp_all add: pow2_def)
  show "to_double (4000000000000001 / 10 ^ 15) = Number (4503599627370497 / 1125899906842624)"
  proof (rule to_double_round [where e = 2 and n = "4503599627370497"])
    show "binade (4000000000000001 / 10 ^ 15) = 2"
      using binade_big [of "4000000000000001 / 10 ^ 15" 4 2] by (simp add: bits_small)
    show "round_half_even (4000000000000001 / 10 ^ 15 / pow2 (2 - 52)) = 4503599627370497"
      by (rule round_half_even_down) (simp_all add: pow2_def)
  qed (simp_all add: pow2_def)
qed

lemma float_examples:
  "parseFloat ''2.5'' = Number (5 / 2)"
  "parseFloat ''4.0000000000000001'' = Number 4"
  "parseFloat ''0.99999999999999999'' = Number 1"
  "parseFloat ''4.000000000000001'' = Number (4503599627370497 / 1125899906842624)"
  by (simp_all only: float_text round_examples)

text \<open>Printing: one round of the search for the shortest digits.\<close>

lemma shortest_next:
  assumes "0 < fuel" and "unit = pow10 (n - int k)"
    and "of_int lo * unit \<le> x" and "x < (of_int lo + 1) * unit"
    and "to_double (of_int lo * unit) = Number y" and "y \<noteq> x"
    and "to_double ((of_int lo + 1) * unit) = Number z" and "z \<noteq> x"
    and "fuel' = fuel - 1" and "k' = Suc k"
  shows "shortest fuel k x n = shortest fuel' k' x n"
proof -
  from assms(1) obtain f where f: "fuel = Suc f" by (cases fuel) auto
  have p: "unit > 0" by (simp add: assms(2) pow10_def)
  have "\<lfloor>x / unit\<rfloor> = lo"
    using assms(3,4) p by (intro floor_unique) (simp_all add: field_simps)
  then show ?thesis
    unfolding f assms(9,10) using assms(5-8) by (simp add: Let_def assms(2) [symmetric])
qed

lemma shortest_exact:
  assumes "0 < fuel" and "of_int lo * pow10 (n - int k) = x" and "to_double x = Number x"
  shows "shortest fuel k x n = (lo, k)"
proof -
  from assms(1) obtain f where f: "fuel = Suc f" by (cases fuel) auto
  have p: "pow10 (n - int k) > 0" by (simp add: pow10_def)
  then have "x / pow10 (n - int k) = of_int lo" using assms(2) by (auto simp: field_simps)
  then have fl: "\<lfloor>x / pow10 (n - int k)\<rfloor> = lo" by simp
  have d: "x - of_int lo * pow10 (n - int k) = 0" using assms(2) by simp
  have h: "of_int (lo + 1) * pow10 (n - int k) - x = pow10 (n - int k)"
    using assms(2) by (simp add: algebra_simps)
  show ?thesis
    unfolding f shortest.simps Let_def fl d h using p assms(2,3) by simp
qed

lemma int_digits_examples:
  "int_digits 3 = ''3''" "int_digits 393 = ''393''" "int_digits 852 = ''852''"
  by code_simp+

lemma positive_string_eq:
  assumes "decimal_exp x = n" and "shortest 17 1 x n = (s, k)" and "s \<noteq> 10 ^ k"
    and "layout (int_digits s) n = out"
  shows "positive_string x = out"
  using assms by (simp add: positive_string_def Let_def)

lemma default_strings:
  "js_string (Number 393) = ''393''" "js_string (Number 852) = ''852''"
  "js_string (Number 3) = ''3''"
proof -
  have a1: "shortest 17 1 393 3 = shortest 16 2 393 3"
    by (rule shortest_next [where lo = 3 and unit = 100 and y = 300 and z = 400])
       (simp_all add: pow10_def to_double_numeral)
  have a2: "shortest 16 2 393 3 = shortest 15 3 393 3"
    by (rule shortest_next [where lo = 39 and unit = 10 and y = 390 and z = 400])
       (simp_all add: pow10_def to_double_numeral)
  have a3: "shortest 15 3 393 3 = (393, 3)"
    by (rule shortest_exact) (simp_all add: pow10_def to_double_numeral)
  have b1: "shortest 17 1 852 3 = shortest 16 2 852 3"
    by (rule shortest_next [where lo = 8 and unit = 100 and y = 800 and z = 900])
       (simp_all add: pow10_def to_double_numeral)
  have b2: "shortest 16 2 852 3 = shortest 15 3 852 3"
    by (rule shortest_next [where lo = 85 and unit = 10 and y = 850 and z = 860])
       (simp_all add: pow10_def to_double_numeral)
  have b3: "shortest 15 3 852 3 = (852, 3)"
    by (rule shortest_exact) (simp_all add: pow10_def to_double_numeral)
  have c1: "shortest 17 1 3 1 = (3, 1)"
    by (rule shortest_exact) (simp_all add: pow10_def to_double_numeral)
  have d: "decimal_exp 393 = 3" "decimal_exp 852 = 3" "decimal_exp 3 = 1"
    by (simp_all add: decimal_exp_def int_digits_examples)
  have l: "layout (int_digits 393) 3 = ''393''" "layout (int_digits 852) 3 = ''852''"
    "layout (int_digits 3) 1 = ''3''"
    by (simp_all add: layout_def int_digits_examples)
  have "positive_string 393 = ''393''"
    by (rule positive_string_eq [OF d(1) _ _ l(1), where k = 3]) (simp_all only: a1 a2 a3, simp)
  moreover have "positive_string 852 = ''852''"
    by (rule positive_string_eq [OF d(2) _ _ l(2), where k = 3]) (simp_all only: b1 b2 b3, simp)
  moreover have "positive_string 3 = ''3''"
    by (rule positive_string_eq [OF d(3) _ _ l(3), where k = 1]) (simp_all only: c1, simp)
  ultimately show "js_string (Number 393) = ''393''" "js_string (Number 852) = ''852''"
    "js_string (Number 3) = ''3''"
    by (simp_all add: js_string_def)
qed

section \<open>Properties of the image route\<close>

lemma invalid_dimensions_iff:
  "invalid_dimensions width height scale \<longleftrightarrow>
     \<not> ((\<exists>x. width = Number x \<and> 100 \<le> x \<and> x \<le> 1200)
        \<and> (\<exists>y. height = Number y \<and> 100 \<le> y \<and> y \<le> 1000)
        \<and> (\<exists>z. scale = Number z \<and> 1 \<le> z \<and> z \<le> 4))"
  by (cases width; cases height; cases scale)
     (auto simp: invalid_dimensions_def isNaN_def js_less_def js_greater_def)

lemma render_failed_not_400: "render_failed env c \<noteq> QError 400 msg"
  by (simp add: render_failed_def)

lemma render_and_store_not_dimensions:
  "fst (render_and_store env key now st) \<noteq> QError 400 ''Invalid dimensions''"
  by (simp add: render_and_store_def Let_def render_failed_not_400 split: option.splits)

lemma qr_image_past_validation:
  assumes "\<not> invalid_dimensions (req_width req) (req_height req) (req_scale req)"
  shows "fst (qr_image env req now st) \<noteq> QError 400 ''Invalid dimensions''"
  using assms render_and_store_not_dimensions
  by (simp add: qr_image_def Let_def split: option.splits acquire_pc.splits)

lemmas dimension_defs = invalid_dimensions_def isNaN_def js_less_def js_greater_def

text \<open>
  Claim C8. The handler answers 400 "Invalid dimensions" exactly when the width is not a
  number between 100 and 1200, or the height is not a number between 100 and 1000, or the
  scale is not a number between 1 and 4, the bounds included; otherwise it goes on past
  the validation. The numbers are the doubles the runtime reads from the query. A width of
  50 and a scale of 5 are refused, as are 99, 1201 and a height of 1001; 1200 by 1000 at
  scale 4 and 100 by 100 at scale 1 pass. So do the scales \<open>4.0000000000000001\<close> and
  \<open>0.99999999999999999\<close>, which are read as the doubles 4 and 1, while
  \<open>4.000000000000001\<close> is read as a double above 4 and refused.
\<close>

theorem render_validates_dimensions:
  "(fst (qr_image env req now st) = QError 400 ''Invalid dimensions'' \<longleftrightarrow>
      \<not> ((\<exists>x. req_width req = Number x \<and> 100 \<le> x \<and> x \<le> 1200)
         \<and> (\<exists>y. req_height req = Number y \<and> 100 \<le> y \<and> y \<le> 1000)
         \<and> (\<exists>z. req_scale req = Number z \<and> 1 \<le> z \<and> z \<le> 4)))
   \<and> invalid_dimensions (parseInt ''50'') (parseInt ''852'') (parseFloat ''3'')
   \<and> invalid_dimensions (parseInt ''393'') (parseInt ''852'') (parseFloat ''5'')
   \<and> invalid_dimensions (parseInt ''99'') (parseInt ''852'') (parseFloat ''3'')
   \<and> invalid_dimensions (parseInt ''1201'') (parseInt ''852'') (parseFloat ''3'')
   \<and> invalid_dimensions (parseInt ''393'') (parseInt ''1001'') (parseFloat ''3'')
   \<and> \<not> invalid_dimensions (parseInt ''1200'') (parseInt ''1000'') (parseFloat ''4'')
   \<and> \<not> invalid_dimensions (parseInt ''100'') (parseInt ''100'') (parseFloat ''1'')
   \<and> \<not> invalid_dimensions (parseInt ''393'') (parseInt ''852'') (parseFloat ''2.5'')
   \<and> \<not> invalid_dimensions (parseInt ''393'') (parseInt ''852'') (parseFloat ''4.0000000000000001'')
   \<and> \<not> invalid_dimensions (parseInt ''393'') (parseInt ''852'') (parseFloat ''0.99999999999999999'')
   \<and> invalid_dimensions (parseInt ''393'') (parseInt ''852'') (parseFloat ''4.000000000000001'')"
proof -
  have "fst (qr_image env req now st) = QError 400 ''Invalid dimensions'' \<longleftrightarrow>
      invalid_dimensions (req_width req) (req_height req) (req_scale req)"
    using qr_image_past_validation [of req env now st]
    by (auto simp: qr_image_def Let_def)
  then show ?thesis
    unfolding invalid_dimensions_iff [symmetric] parse_examples float_examples
    by (simp add: dimension_defs)
qed

theorem render_validates_dimensions_witness:
  "fst (qr_image all_ok \<lparr>q_username = ''jack'', q_w = Some ''50'', q_h = None, q_scale = None,
           q_theme = None\<rparr> 1000 server_init) = QError 400 ''Invalid dimensions''
   \<and> fst (qr_image all_ok \<lparr>q_username = ''jack'', q_w = None, q_h = None, q_scale = Some ''5'',
           q_theme = None\<rparr> 1000 server_init) = QError 400 ''Invalid dimensions''
   \<and> fst (qr_image all_ok \<lparr>q_username = ''jack'', q_w = Some ''1200'', q_h = Some ''1000'',
           q_scale = Some ''4'', q_theme = None\<rparr> 1000 server_init) \<noteq> QError 400 ''Invalid dimensions''
   \<and> fst (qr_image all_ok \<lparr>q_username = ''jack'', q_w = None, q_h = None,
           q_scale = Some ''4.0000000000000001'', q_theme = None\<rparr> 1000 server_init)
        \<noteq> QError 400 ''Invalid dimensions''"
proof -
  have p: "req_width \<lparr>q_username = ''jack'', q_w = Some ''50'', q_h = None, q_scale = None,
           q_theme = None\<rparr> = Number 50"
    "req_scale \<lparr>q_username = ''jack'', q_w = None, q_h = None, q_scale = Some ''5'',
           q_theme = None\<rparr> = Number 5"
    "req_width \<lparr>q_username = ''jack'', q_w = Some ''1200'', q_h = Some ''1000'',
           q_scale = Some ''4'', q_theme = None\<rparr> = Number 1200"
    "req_height \<lparr>q_username = ''jack'', q_w = Some ''1200'', q_h = Some ''1000'',
           q_scale = Some ''4'', q_theme = None\<rparr> = Number 1000"
    "req_scale \<lparr>q_username = ''jack'', q_w = Some ''1200'', q_h = Some ''1000'',
           q_scale = Some ''4'', q_theme = None\<rparr> = Number 4"
    "req_width \<lparr>q_username = ''jack'', q_w = None, q_h = None,
           q_scale = Some ''4.0000000000000001'', q_theme = None\<rparr> = Number 393"
    "req_height \<lparr>q_username = ''jack'', q_w = None, q_h = None,
           q_scale = Some ''4.0000000000000001'', q_theme = None\<rparr> = Number 852"
    "req_scale \<lparr>q_username = ''jack'', q_w = None, q_h = None,
           q_scale = Some ''4.0000000000000001'', q_theme = None\<rparr> = Number 4"
    by (simp_all add: req_width_def req_height_def req_scale_def or_default_def parse_examples
        float_examples)
  show ?thesis
    using
      conjunct1 [OF render_validates_dimensions [of all_ok "\<lparr>q_username = ''jack'', q_w = Some ''50'',
           q_h = None, q_scale = None, q_theme = None\<rparr>" 1000 server_init]]
      conjunct1 [OF render_validates_dimensions [of all_ok "\<lparr>q_username = ''jack'', q_w = None,
           q_h = None, q_scale = Some ''5'', q_theme = None\<rparr>" 1000 server_init]]
      conjunct1 [OF render_validates_dimensions [of all_ok "\<lparr>q_username = ''jack'', q_w = Some ''1200'',
           q_h = Some ''1000'', q_scale = Some ''4'', q_theme = None\<rparr>" 1000 server_init]]
      conjunct1 [OF render_validates_dimensions [of all_ok "\<lparr>q_username = ''jack'', q_w = None,
           q_h = None, q_scale = Some ''4.0000000000000001'', q_theme = None\<rparr>" 1000 server_init]]
    by (simp add: p)
qed

text \<open>
  Claim C10. A missing width, height or scale is replaced by 393, 852 or 3 before the
  validation, and the replacement is the number that enters the cache key at that
  parameter's place, whatever the other parameters are. The theme is "light" exactly when
  the parameter is the string "light" and "dark" otherwise, also when it is missing. With
  all three numbers missing the request passes the validation and its key is the handle
  followed by \<open>_393x852_3_\<close> and the theme. The key is the one the handler looks up: for
  a request past the validation with a cached, well-formed handle, a fresh image stored
  under the key of its width, height, scale and theme is what the handler returns.
\<close>

theorem render_defaults:
  "(q_w req = None \<longrightarrow>
        req_width req = Number 393
      \<and> cacheKey (cleanUsername (q_username req)) (req_width req) (req_height req)
            (req_scale req) (req_theme req)
          = cleanUsername (q_username req) @ ''_393x'' @ js_string (req_height req) @ ''_''
              @ js_string (req_scale req) @ ''_'' @ req_theme req)
   \<and> (q_h req = None \<longrightarrow>
        req_height req = Number 852
      \<and> cacheKey (cleanUsername (q_username req)) (req_width req) (req_height req)
            (req_scale req) (req_theme req)
          = cleanUsername (q_username req) @ ''_'' @ js_string (req_width req) @ ''x852_''
              @ js_string (req_scale req) @ ''_'' @ req_theme req)
   \<and> (q_scale req = None \<longrightarrow>
        req_scale req = Number 3
      \<and> cacheKey (cleanUsername (q_username req)) (req_width req) (req_height req)
            (req_scale req) (req_theme req)
          = cleanUsername (q_username req) @ ''_'' @ js_string (req_width req) @ ''x''
              @ js_string (req_height req) @ ''_3_'' @ req_theme req)
   \<and> (req_theme req = ''light'' \<longleftrightarrow> q_theme req = Some ''light'')
   \<and> (q_theme req \<noteq> Some ''light'' \<longrightarrow> req_theme req = ''dark'')
   \<and> (q_w req = None \<and> q_h req = None \<and> q_scale req = None \<longrightarrow>
        \<not> invalid_dimensions (req_width req) (req_height req) (req_scale req)
      \<and> fst (qr_image env req now st) \<noteq> QError 400 ''Invalid dimensions''
      \<and> cacheKey (cleanUsername (q_username req)) (req_width req) (req_height req)
            (req_scale req) (req_theme req)
          = cleanUsername (q_username req) @ ''_393x852_3_'' @ req_theme req)
   \<and> (\<forall>row. \<not> invalid_dimensions (req_width req) (req_height req) (req_scale req)
          \<and> username_format_ok (cleanUsername (q_username req))
          \<and> getCachedProfile (profiles st) (cleanUsername (q_username req)) \<noteq> None
          \<and> getCachedImage (images st)
               (cacheKey (cleanUsername (q_username req)) (req_width req) (req_height req)
                  (req_scale req) (req_theme req)) = Some row
          \<and> now - image_cached_at row < SCREENSHOT_CACHE_TTL
        \<longrightarrow> qr_image env req now st = (QImage (image_bytes row), st))"
proof -
  have w: "req_width req = Number 393" if "q_w req = None"
    using that by (simp add: req_width_def or_default_def parse_examples)
  have h: "req_height req = Number 852" if "q_h req = None"
    using that by (simp add: req_height_def or_default_def parse_examples)
  have s: "req_scale req = Number 3" if "q_scale req = None"
    using that by (simp add: req_scale_def or_default_def parse_examples)
  have t: "(req_theme req = ''light'' \<longleftrightarrow> q_theme req = Some ''light'')
      \<and> (q_theme req \<noteq> Some ''light'' \<longrightarrow> req_theme req = ''dark'')"
    by (simp add: req_theme_def)
  have kw: "cacheKey (cleanUsername (q_username req)) (req_width req) (req_height req)
            (req_scale req) (req_theme req)
          = cleanUsername (q_username req) @ ''_393x'' @ js_string (req_height req) @ ''_''
              @ js_string (req_scale req) @ ''_'' @ req_theme req" if "q_w req = None"
    unfolding w [OF that] by (simp add: cacheKey_def default_strings)
  have kh: "cacheKey (cleanUsername (q_username req)) (req_width req) (req_height req)
            (req_scale req) (req_theme req)
          = cleanUsername (q_username req) @ ''_'' @ js_string (req_width req) @ ''x852_''
              @ js_string (req_scale req) @ ''_'' @ req_theme req" if "q_h req = None"
    unfolding h [OF that] by (simp add: cacheKey_def default_strings)
  have ks: "cacheKey (cleanUsername (q_username req)) (req_width req) (req_height req)
            (req_scale req) (req_theme req)
          = cleanUsername (q_username req) @ ''_'' @ js_string (req_width req) @ ''x''
              @ js_string (req_height req) @ ''_3_'' @ req_theme req" if "q_scale req = None"
    unfolding s [OF that] by (simp add: cacheKey_def default_strings)
  have all: "\<not> invalid_dimensions (req_width req) (req_height req) (req_scale req)
      \<and> fst (qr_image env req now st) \<noteq> QError 400 ''Invalid dimensions''
      \<and> cacheKey (cleanUsername (q_username req)) (req_width req) (req_height req)
            (req_scale req) (req_theme req)
          = cleanUsername (q_username req) @ ''_393x852_3_'' @ req_theme req"
    if n: "q_w req = None" "q_h req = None" "q_scale req = None"
  proof -
    have v: "\<not> invalid_dimensions (req_width req) (req_height req) (req_scale req)"
      unfolding w [OF n(1)] h [OF n(2)] s [OF n(3)] by (simp add: dimension_defs)
    have k: "cacheKey (cleanUsername (q_username req)) (req_width req) (req_height req)
            (req_scale req) (req_theme req)
          = cleanUsername (q_username req) @ ''_393x852_3_'' @ req_theme req"
      unfolding w [OF n(1)] h [OF n(2)] s [OF n(3)]
      by (simp add: cacheKey_def default_strings)
    show ?thesis using v k qr_image_past_validation [OF v] by blast
  qed
  have hit: "qr_image env req now st = (QImage (image_bytes row), st)"
    if "\<not> invalid_dimensions (req_width req) (req_height req) (req_scale req)"
      and "username_format_ok (cleanUsername (q_username req))"
      and "getCachedProfile (profiles st) (cleanUsername (q_username req)) \<noteq> None"
      and "getCachedImage (images st)
               (cacheKey (cleanUsername (q_username req)) (req_width req) (req_height req)
                  (req_scale req) (req_theme req)) = Some row"
      and "now - image_cached_at row < SCREENSHOT_CACHE_TTL" for row
    using that by (auto simp: qr_image_def Let_def)
  show ?thesis using w h s t kw kh ks all hit by blast
qed

lemma clean_jack': "cleanUsername ''@Jack'' = ''jack''"
  by code_simp

lemma lower_key: "toLowerCase ''jack_393x852_3_dark'' = ''jack_393x852_3_dark''"
  by code_simp

theorem render_defaults_witness:
  "q_w \<lparr>q_username = ''@Jack'', q_w = None, q_h = None, q_scale = None, q_theme = None\<rparr> = None
   \<and> req_width \<lparr>q_username = ''@Jack'', q_w = None, q_h = None, q_scale = None, q_theme = None\<rparr>
        = Number 393
   \<and> req_height \<lparr>q_username = ''@Jack'', q_w = None, q_h = None, q_scale = None, q_theme = None\<rparr>
        = Number 852
   \<and> req_scale \<lparr>q_username = ''@Jack'', q_w = None, q_h = None, q_scale = None, q_theme = None\<rparr>
        = Number 3
   \<and> req_theme \<lparr>q_username = ''@Jack'', q_w = None, q_h = None, q_scale = None, q_theme = None\<rparr>
        = ''dark''
   \<and> cacheKey ''jack'' (Number 393) (Number 852) (Number 3) ''dark'' = ''jack_393x852_3_dark''
   \<and> qr_image all_ok \<lparr>q_username = ''@Jack'', q_w = None, q_h = None, q_scale = None, q_theme = None\<rparr>
        1000
        \<lparr>profiles = [''jack'' \<mapsto> \<lparr>data = ''{}'', cached_at = 0\<rparr>],
          images = [''jack_393x852_3_dark'' \<mapsto> \<lparr>image_bytes = [137, 80], image_cached_at = 500\<rparr>],
          browsers = manager_init\<rparr>
      = (QImage [137, 80],
         \<lparr>profiles = [''jack'' \<mapsto> \<lparr>data = ''{}'', cached_at = 0\<rparr>],
          images = [''jack_393x852_3_dark'' \<mapsto> \<lparr>image_bytes = [137, 80], image_cached_at = 500\<rparr>],
          browsers = manager_init\<rparr>)"
proof -
  let ?req = "\<lparr>q_username = ''@Jack'', q_w = None, q_h = None, q_scale = None, q_theme = None\<rparr>"
  let ?st = "\<lparr>profiles = [''jack'' \<mapsto> \<lparr>data = ''{}'', cached_at = 0\<rparr>],
          images = [''jack_393x852_3_dark'' \<mapsto> \<lparr>image_bytes = [137, 80], image_cached_at = 500\<rparr>],
          browsers = manager_init\<rparr>"
  note t = render_defaults [of ?req all_ok 1000 ?st]
  have n: "q_w ?req = None" "q_h ?req = None" "q_scale ?req = None" "q_theme ?req \<noteq> Some ''light''"
    by simp_all
  have th: "req_theme ?req = ''dark''" using t n by blast
  have w: "req_width ?req = Number 393" and h: "req_height ?req = Number 852"
    and s: "req_scale ?req = Number 3"
    using t n by blast+
  have v: "\<not> invalid_dimensions (req_width ?req) (req_height ?req) (req_scale ?req)"
    using t n by blast
  have u: "cleanUsername (q_username ?req) = ''jack''" by (simp add: clean_jack')
  have "cacheKey (cleanUsername (q_username ?req)) (req_width ?req) (req_height ?req)
            (req_scale ?req) (req_theme ?req)
          = cleanUsername (q_username ?req) @ ''_393x852_3_'' @ req_theme ?req"
    using t n by blast
  then have k: "cacheKey ''jack'' (Number 393) (Number 852) (Number 3) ''dark'' = ''jack_393x852_3_dark''"
    unfolding u w h s th by simp
  have f: "username_format_ok (cleanUsername (q_username ?req))"
    unfolding u by (rule jack_ok)
  have p: "getCachedProfile (profiles ?st) (cleanUsername (q_username ?req)) \<noteq> None"
    unfolding u by (simp add: getCachedProfile_def lower_jack)
  have i: "getCachedImage (images ?st)
        (cacheKey (cleanUsername (q_username ?req)) (req_width ?req) (req_height ?req)
            (req_scale ?req) (req_theme ?req))
      = Some \<lparr>image_bytes = [137, 80], image_cached_at = 500\<rparr>"
    unfolding u th w h s k by (simp add: getCachedImage_def lower_key)
  have a: "(1000::int) - image_cached_at \<lparr>image_bytes = [137, 80], image_cached_at = 500\<rparr>
      < SCREENSHOT_CACHE_TTL"
    by (simp add: SCREENSHOT_CACHE_TTL_def)
  have r: "qr_image all_ok ?req 1000 ?st
      = (QImage (image_bytes \<lparr>image_bytes = [137, 80], image_cached_at = 500\<rparr>), ?st)"
    using t v f p i a by blast
  show ?thesis using n(1) w h s th k r by simp
qed

text \<open>
  On a miss the rendered image is returned and stored under the same key.
\<close>

lemma qr_image_stores_under_key:
  assumes "\<not> invalid_dimensions (req_width req) (req_height req) (req_scale req)"
    and "username_format_ok (cleanUsername (q_username req))"
    and "getCachedProfile (profiles st) (cleanUsername (q_username req)) \<noteq> None"
    and "getCachedImage (images st)
           (cacheKey (cleanUsername (q_username req)) (req_width req) (req_height req)
              (req_scale req) (req_theme req)) = None"
    and "fst (getBrowser (engine env) (browsers st)) = Returned (Some b)"
    and "new_context_ok env" and "page_ok env" and "screenshot env = Some shot"
    and "context_close_ok env" and "image_write_ok env"
  shows "fst (qr_image env req now st) = QImage shot"
    and "images (snd (qr_image env req now st))
           = setCachedImage (images st)
               (cacheKey (cleanUsername (q_username req)) (req_width req) (req_height req)
                  (req_scale req) (req_theme req)) shot now"
  using assms
  by (auto simp: qr_image_def Let_def render_and_store_def target_hostname_def)

text \<open>
  Claim C7. A handle is a normalised identifier of the restricted character set: 1 to 15
  letters, digits or underscores. For every request whose dimensions pass the validation
  and whose handle is such: when the handle has no entry in the profile cache the handler
  answers 404 "Profile not cached" and changes nothing: no browser is acquired, no render
  runs, no cache is written, whatever the width, height, scale and theme are.
\<close>

theorem not_cached_for_wellformed_handle:
  assumes "\<not> invalid_dimensions (req_width req) (req_height req) (req_scale req)"
    and "username_format_ok (cleanUsername (q_username req))"
    and "getCachedProfile (profiles st) (cleanUsername (q_username req)) = None"
  shows "qr_image env req now st = (QError 404 ''Profile not cached. View the profile first.'', st)"
  using assms by (simp add: qr_image_def Let_def)

theorem not_cached_for_wellformed_handle_witness:
  "\<not> invalid_dimensions
        (req_width \<lparr>q_username = ''jack'', q_w = Some ''1200'', q_h = Some ''1000'', q_scale = Some ''4'',
           q_theme = Some ''light''\<rparr>)
        (req_height \<lparr>q_username = ''jack'', q_w = Some ''1200'', q_h = Some ''1000'', q_scale = Some ''4'',
           q_theme = Some ''light''\<rparr>)
        (req_scale \<lparr>q_username = ''jack'', q_w = Some ''1200'', q_h = Some ''1000'', q_scale = Some ''4'',
           q_theme = Some ''light''\<rparr>)
   \<and> username_format_ok (cleanUsername ''jack'')
   \<and> getCachedProfile (profiles server_init) (cleanUsername ''jack'') = None
   \<and> qr_image all_ok
        \<lparr>q_username = ''jack'', q_w = Some ''1200'', q_h = Some ''1000'', q_scale = Some ''4'',
           q_theme = Some ''light''\<rparr> 1000
        server_init
      = (QError 404 ''Profile not cached. View the profile first.'',
         server_init)"
proof -
  let ?req = "\<lparr>q_username = ''jack'', q_w = Some ''1200'', q_h = Some ''1000'', q_scale = Some ''4'',
           q_theme = Some ''light''\<rparr>"
  let ?st = "server_init"
  have d: "\<not> invalid_dimensions (req_width ?req) (req_height ?req) (req_scale ?req)"
    by (simp add: req_width_def req_height_def req_scale_def or_default_def parse_examples
        dimension_defs)
  have f: "username_format_ok (cleanUsername (q_username ?req))"
    by (simp add: clean_jack jack_ok)
  have p: "getCachedProfile (profiles ?st) (cleanUsername (q_username ?req)) = None"
    by (simp add: getCachedProfile_def server_init_def)
  from not_cached_for_wellformed_handle [OF d f p, of all_ok 1000] d f p
  show ?thesis by simp
qed

text \<open>
  A request whose text for the handle is not well formed after normalising is refused
  with 400 before the profile cache is read.
\<close>

lemma malformed_handle_400:
  assumes "\<not> invalid_dimensions (req_width req) (req_height req) (req_scale req)"
    and "\<not> username_format_ok (cleanUsername (q_username req))"
  shows "qr_image env req now st = (QError 400 ''Invalid username format'', st)"
  using assms by (simp add: qr_image_def Let_def)

text \<open>
  Claim C1, evaluated on the code. The profile is cached, no image is, the browser starts,
  the screenshot is captured and the context closed; then the write to the image cache
  throws. The handler's \<^verbatim>\<open>catch\<close> answers 500 "Failed to generate image": the captured
  bytes are not returned, although the render is counted as done.
\<close>

theorem cache_write_failure_loses_image:
  "fst (qr_image
          \<lparr>engine = \<lparr>playwright_available = True, launch_ok = True\<rparr>, new_context_ok = True,
            page_ok = True, screenshot = Some [137, 80, 78, 71], context_close_ok = True,
            image_write_ok = False\<rparr>
          \<lparr>q_username = ''jack'', q_w = None, q_h = None, q_scale = None, q_theme = None\<rparr> 1000
          \<lparr>profiles = [''jack'' \<mapsto> \<lparr>data = ''{}'', cached_at = 0\<rparr>], images = Map.empty,
            browsers = manager_init\<rparr>)
     = QError 500 ''Failed to generate image''
   \<and> screenshotCount (browsers (snd (qr_image
          \<lparr>engine = \<lparr>playwright_available = True, launch_ok = True\<rparr>, new_context_ok = True,
            page_ok = True, screenshot = Some [137, 80, 78, 71], context_close_ok = True,
            image_write_ok = False\<rparr>
          \<lparr>q_username = ''jack'', q_w = None, q_h = None, q_scale = None, q_theme = None\<rparr> 1000
          \<lparr>profiles = [''jack'' \<mapsto> \<lparr>data = ''{}'', cached_at = 0\<rparr>], images = Map.empty,
            browsers = manager_init\<rparr>))) = 1
   \<and> fst (qr_image
          \<lparr>engine = \<lparr>playwright_available = True, launch_ok = True\<rparr>, new_context_ok = True,
            page_ok = True, screenshot = Some [137, 80, 78, 71], context_close_ok = True,
            image_write_ok = True\<rparr>
          \<lparr>q_username = ''jack'', q_w = None, q_h = None, q_scale = None, q_theme = None\<rparr> 1000
          \<lparr>profiles = [''jack'' \<mapsto> \<lparr>data = ''{}'', cached_at = 0\<rparr>], images = Map.empty,
            browsers = manager_init\<rparr>)
     = QImage [137, 80, 78, 71]"
proof -
  let ?req = "\<lparr>q_username = ''jack'', q_w = None, q_h = None, q_scale = None, q_theme = None\<rparr>"
  have d: "\<not> invalid_dimensions (req_width ?req) (req_height ?req) (req_scale ?req)"
    by (simp add: req_width_def req_height_def req_scale_def or_default_def parse_examples
        dimension_defs)
  have g: "getBrowser \<lparr>playwright_available = True, launch_ok = True\<rparr> manager_init
      = (Returned (Some \<lparr>browser_id = 0, isConnected = True\<rparr>),
         \<lparr>playwright = True, persistentBrowser = Some \<lparr>browser_id = 0, isConnected = True\<rparr>,
           screenshotCount = 0, launches = 1\<rparr>)"
    by (simp add: getBrowser_def numeral_nat acquire_step_def check_and_launch_def manager_init_def
        MAX_SCREENSHOTS_BEFORE_RESTART_def)
  show ?thesis
    using d
    by (simp add: qr_image_def Let_def clean_jack jack_ok getCachedProfile_def lower_jack
        getCachedImage_def g render_and_store_def render_failed_def target_hostname_def)
qed

section \<open>Properties of the shared rendering process\<close>

lemmas acquire_defs = acquire_step_def check_and_launch_def MAX_SCREENSHOTS_BEFORE_RESTART_def

text \<open>
  Claim C4 as stated fails. Two callers ask for the browser while none exists. The first
  finds none and starts a launch; before that launch has finished the second runs, finds
  none either and starts a launch of its own. Two processes are launched, the callers hold
  different browsers, and the module keeps the one whose launch finished last. With ten
  callers that each run before any launch has finished there are ten launches.
\<close>

theorem single_flight_counterexample:
  "run_schedule \<lparr>playwright_available = True, launch_ok = True\<rparr> [0, 1, 0, 1]
       ([AtStart, AtStart], manager_init)
     = ([Returned (Some \<lparr>browser_id = 0, isConnected = True\<rparr>),
         Returned (Some \<lparr>browser_id = 1, isConnected = True\<rparr>)],
        \<lparr>playwright = True, persistentBrowser = Some \<lparr>browser_id = 1, isConnected = True\<rparr>,
          screenshotCount = 0, launches = 2\<rparr>)
   \<and> launches (snd (run_schedule \<lparr>playwright_available = True, launch_ok = True\<rparr>
         ([0, 1, 2, 3, 4, 5, 6, 7, 8, 9] @ [0, 1, 2, 3, 4, 5, 6, 7, 8, 9])
         (replicate 10 AtStart, manager_init))) = 10"
  by code_simp

lemma getBrowser_unfold:
  "getBrowser env m =
     (let s1 = acquire_step env AtStart m;
          s2 = acquire_step env (fst s1) (snd s1);
          s3 = acquire_step env (fst s2) (snd s2)
      in acquire_step env (fst s3) (snd s3))"
  by (simp add: getBrowser_def numeral_nat Let_def)

text \<open>A first call on an unstarted manager launches once and keeps the browser.\<close>

lemma getBrowser_first:
  assumes "playwright_available env" and "launch_ok env" and "persistentBrowser m = None"
  shows "getBrowser env m =
     (Returned (Some \<lparr>browser_id = launches m, isConnected = True\<rparr>),
      m\<lparr>playwright := True,
        persistentBrowser := Some \<lparr>browser_id = launches m, isConnected = True\<rparr>,
        launches := Suc (launches m)\<rparr>)"
  using assms by (simp add: getBrowser_unfold acquire_defs Let_def)

text \<open>A call that finds a connected browser below the restart count returns it.\<close>

lemma getBrowser_reuse:
  assumes "playwright m" and "persistentBrowser m = Some b" and "isConnected b"
    and "screenshotCount m < MAX_SCREENSHOTS_BEFORE_RESTART"
  shows "getBrowser env m = (Returned (Some b), m)"
  using assms by (simp add: getBrowser_unfold acquire_step_def check_and_launch_def Let_def)

text \<open>
  The cases in which a later call launches again: the browser has disconnected, the
  handle was cleared, or 100 renders have been counted.
\<close>

lemma relaunch_after_disconnect:
  assumes "playwright m" and "launch_ok env" and "persistentBrowser m = Some b"
    and "screenshotCount m < MAX_SCREENSHOTS_BEFORE_RESTART"
  shows "fst (getBrowser env (disconnect m)) = Returned (Some \<lparr>browser_id = launches m, isConnected = True\<rparr>)"
    and "launches (snd (getBrowser env (disconnect m))) = Suc (launches m)"
  using assms by (simp_all add: getBrowser_unfold acquire_defs Let_def disconnect_def)

lemma relaunch_after_clear_cache:
  assumes "playwright m" and "launch_ok env"
  shows "fst (getBrowser env (clear_cache m)) = Returned (Some \<lparr>browser_id = launches m, isConnected = True\<rparr>)"
    and "launches (snd (getBrowser env (clear_cache m))) = Suc (launches m)"
  using assms by (simp_all add: getBrowser_unfold acquire_defs Let_def clear_cache_def)

lemma relaunch_after_100_renders:
  assumes "playwright m" and "launch_ok env" and "persistentBrowser m = Some b"
    and "screenshotCount m \<ge> MAX_SCREENSHOTS_BEFORE_RESTART"
  shows "fst (getBrowser env m) = Returned (Some \<lparr>browser_id = launches m, isConnected = True\<rparr>)"
    and "launches (snd (getBrowser env m)) = Suc (launches m)"
    and "screenshotCount (snd (getBrowser env m)) = 0"
  using assms by (simp_all add: getBrowser_unfold acquire_defs Let_def)

lemma run_events_reuse:
  assumes "playwright m" and "persistentBrowser m = Some b" and "isConnected b"
    and "set evs \<subseteq> {Acquire, Render}"
    and "screenshotCount m + count_list evs Render < MAX_SCREENSHOTS_BEFORE_RESTART"
  shows "fst (run_events env evs m) = replicate (count_list evs Acquire) (Returned (Some b))
     \<and> launches (snd (run_events env evs m)) = launches m
     \<and> persistentBrowser (snd (run_events env evs m)) = Some b"
  using assms
proof (induction evs arbitrary: m)
  case Nil
  then show ?case by simp
next
  case (Cons ev evs)
  from Cons.prems(4) have ev: "ev = Acquire \<or> ev = Render" and sub: "set evs \<subseteq> {Acquire, Render}"
    by auto
  from ev show ?case
  proof
    assume a: "ev = Acquire"
    have c: "screenshotCount m < MAX_SCREENSHOTS_BEFORE_RESTART" using Cons.prems(5) by simp
    have g: "getBrowser env m = (Returned (Some b), m)"
      using Cons.prems(1-3) c by (rule getBrowser_reuse)
    have "screenshotCount m + count_list evs Render < MAX_SCREENSHOTS_BEFORE_RESTART"
      using Cons.prems(5) a by simp
    from Cons.IH [OF Cons.prems(1-3) sub this] show ?thesis by (simp add: a g Let_def)
  next
    assume r: "ev = Render"
    have "screenshotCount (count_render m) + count_list evs Render < MAX_SCREENSHOTS_BEFORE_RESTART"
      using Cons.prems(5) r by (simp add: count_render_def)
    from Cons.IH [of "count_render m", OF _ _ Cons.prems(3) sub this] Cons.prems(1,2)
    show ?thesis by (simp add: r count_render_def)
  qed
qed

text \<open>Overlapping callers, first half: every caller runs its check before any launch ends.\<close>

lemma all_start:
  assumes "playwright_available env" and "launch_ok env" and "persistentBrowser m = None"
    and "k \<le> n"
  shows "run_schedule env [0..<k] (replicate n AtStart, m)
     = (map AtLaunched [launches m..<launches m + k] @ replicate (n - k) AtStart,
        m\<lparr>playwright := playwright m \<or> 0 < k, launches := launches m + k\<rparr>)"
  using assms(4)
proof (induction k)
  case 0
  then show ?case by (simp add: run_schedule_def)
next
  case (Suc k)
  then have kn: "k < n" by simp
  let ?l = "launches m"
  let ?pcs = "map AtLaunched [?l..<?l + k] @ replicate (n - k) AtStart"
  let ?m = "m\<lparr>playwright := playwright m \<or> 0 < k, launches := ?l + k\<rparr>"
  have IH: "run_schedule env [0..<k] (replicate n AtStart, m) = (?pcs, ?m)"
    using Suc by simp
  have at: "?pcs ! k = AtStart" using kn by (simp add: nth_append)
  have st: "acquire_step env AtStart ?m
      = (AtLaunched (?l + k), m\<lparr>playwright := True, launches := Suc (?l + k)\<rparr>)"
    using assms(1-3) by (simp add: acquire_defs Let_def)
  have rep: "replicate (n - k) AtStart = AtStart # replicate (n - Suc k) AtStart"
    using kn by (cases "n - k") (simp_all add: Suc_diff_Suc)
  have upd: "?pcs[k := AtLaunched (?l + k)]
      = map AtLaunched [?l..<?l + Suc k] @ replicate (n - Suc k) AtStart"
    by (simp add: list_update_append rep)
  have "run_schedule env [0..<Suc k] (replicate n AtStart, m)
      = sched_step env (?pcs, ?m) k"
    using IH by (simp add: run_schedule_def)
  also have "\<dots> = (?pcs[k := AtLaunched (?l + k)], m\<lparr>playwright := True, launches := Suc (?l + k)\<rparr>)"
    using kn by (simp add: sched_step_def at st Let_def)
  finally show ?case by (simp add: upd)
qed

text \<open>Second half: the launches end in the order in which they were started.\<close>

lemma all_finish:
  assumes "k \<le> n"
  shows "run_schedule env [0..<k] (map AtLaunched [l..<l + n], m)
     = (map (\<lambda>i. Returned (Some (launched i))) [l..<l + k] @ map AtLaunched [l + k..<l + n],
        m\<lparr>persistentBrowser := (if k = 0 then persistentBrowser m else Some (launched (l + k - 1)))\<rparr>)"
  using assms
proof (induction k)
  case 0
  then show ?case by (simp add: run_schedule_def)
next
  case (Suc k)
  then have kn: "k < n" by simp
  let ?done = "map (\<lambda>i. Returned (Some (launched i))) [l..<l + k]"
  let ?pcs = "?done @ map AtLaunched [l + k..<l + n]"
  let ?m = "m\<lparr>persistentBrowser := (if k = 0 then persistentBrowser m else Some (launched (l + k - 1)))\<rparr>"
  have IH: "run_schedule env [0..<k] (map AtLaunched [l..<l + n], m) = (?pcs, ?m)"
    using Suc by simp
  have split: "[l + k..<l + n] = (l + k) # [l + Suc k..<l + n]"
    using kn by (simp add: upt_conv_Cons)
  have at: "?pcs ! k = AtLaunched (l + k)" by (simp add: nth_append split)
  have st: "acquire_step env (AtLaunched (l + k)) ?m
      = (Returned (Some (launched (l + k))), m\<lparr>persistentBrowser := Some (launched (l + k))\<rparr>)"
    by (simp add: acquire_step_def launched_def)
  have upd: "?pcs[k := Returned (Some (launched (l + k)))]
      = map (\<lambda>i. Returned (Some (launched i))) [l..<l + Suc k] @ map AtLaunched [l + Suc k..<l + n]"
    by (simp add: list_update_append split)
  have "run_schedule env [0..<Suc k] (map AtLaunched [l..<l + n], m) = sched_step env (?pcs, ?m) k"
    using IH by (simp add: run_schedule_def)
  also have "\<dots> = (?pcs[k := Returned (Some (launched (l + k)))],
       m\<lparr>persistentBrowser := Some (launched (l + k))\<rparr>)"
    using kn by (simp add: sched_step_def at st Let_def)
  finally show ?case by (simp add: upd)
qed

lemma run_schedule_append:
  "run_schedule env (xs @ ys) st = run_schedule env ys (run_schedule env xs st)"
  by (simp add: run_schedule_def)


text \<open>
  Claim C4, amended. The manager has no browser, the library loads and a launch succeeds.

  Without overlap: in a history that begins with a call of \<^verbatim>\<open>getBrowser\<close> and goes on
  with further calls and finished renders only (the browser does not disconnect,
  \<^verbatim>\<open>/clear-cache\<close> is not called) while the render count stays below 100, the first call
  launches the process, every call returns the browser of that launch, and nothing else is
  launched.

  With overlap: \<open>n\<close> callers, each running its check before any launch has ended, start
  \<open>n\<close> launches; when the launches end in the order of their start, caller \<open>i\<close> holds
  the browser of the \<open>i\<close>-th launch and the module keeps the last one.
\<close>

theorem launch_once_unless_callers_overlap:
  assumes "playwright_available env" and "launch_ok env" and "persistentBrowser m = None"
  shows "(set evs \<subseteq> {Acquire, Render}
          \<and> screenshotCount m + count_list evs Render < MAX_SCREENSHOTS_BEFORE_RESTART \<longrightarrow>
            fst (run_events env (Acquire # evs) m)
              = replicate (Suc (count_list evs Acquire)) (Returned (Some (launched (launches m))))
          \<and> launches (snd (run_events env (Acquire # evs) m)) = Suc (launches m))
     \<and> (0 < n \<longrightarrow>
            run_schedule env ([0..<n] @ [0..<n]) (replicate n AtStart, m)
              = (map (\<lambda>i. Returned (Some (launched i))) [launches m..<launches m + n],
                 m\<lparr>playwright := True,
                   persistentBrowser := Some (launched (launches m + n - 1)),
                   launches := launches m + n\<rparr>))"
proof (intro conjI impI)
  let ?b = "launched (launches m)"
  let ?m1 = "m\<lparr>playwright := True, persistentBrowser := Some ?b, launches := Suc (launches m)\<rparr>"
  assume h: "set evs \<subseteq> {Acquire, Render}
          \<and> screenshotCount m + count_list evs Render < MAX_SCREENSHOTS_BEFORE_RESTART"
  have first: "getBrowser env m = (Returned (Some ?b), ?m1)"
    using getBrowser_first [OF assms] by (simp add: launched_def)
  have rest: "fst (run_events env evs ?m1) = replicate (count_list evs Acquire) (Returned (Some ?b))
     \<and> launches (snd (run_events env evs ?m1)) = launches ?m1
     \<and> persistentBrowser (snd (run_events env evs ?m1)) = Some ?b"
    using h by (intro run_events_reuse) (simp_all add: launched_def)
  show "fst (run_events env (Acquire # evs) m)
      = replicate (Suc (count_list evs Acquire)) (Returned (Some ?b))"
    using rest by (simp add: first Let_def)
  show "launches (snd (run_events env (Acquire # evs) m)) = Suc (launches m)"
    using rest by (simp add: first Let_def)
next
  assume n: "0 < n"
  have a: "run_schedule env [0..<n] (replicate n AtStart, m)
      = (map AtLaunched [launches m..<launches m + n],
         m\<lparr>playwright := True, launches := launches m + n\<rparr>)"
    using all_start [OF assms, of n n] n by simp
  have b: "run_schedule env [0..<n]
        (map AtLaunched [launches m..<launches m + n],
         m\<lparr>playwright := True, launches := launches m + n\<rparr>)
      = (map (\<lambda>i. Returned (Some (launched i))) [launches m..<launches m + n],
         m\<lparr>playwright := True, launches := launches m + n,
           persistentBrowser := Some (launched (launches m + n - 1))\<rparr>)"
    using all_finish [of n n env "launches m" "m\<lparr>playwright := True, launches := launches m + n\<rparr>"] n
    by simp
  show "run_schedule env ([0..<n] @ [0..<n]) (replicate n AtStart, m)
      = (map (\<lambda>i. Returned (Some (launched i))) [launches m..<launches m + n],
         m\<lparr>playwright := True,
           persistentBrowser := Some (launched (launches m + n - 1)),
           launches := launches m + n\<rparr>)"
    by (simp add: run_schedule_append a b)
qed

theorem launch_once_unless_callers_overlap_witness:
  "playwright_available \<lparr>playwright_available = True, launch_ok = True\<rparr>
   \<and> launch_ok \<lparr>playwright_available = True, launch_ok = True\<rparr>
   \<and> persistentBrowser manager_init = None
   \<and> set [Acquire, Render, Acquire] \<subseteq> {Acquire, Render}
   \<and> screenshotCount manager_init + count_list [Acquire, Render, Acquire] Render
        < MAX_SCREENSHOTS_BEFORE_RESTART
   \<and> fst (run_events \<lparr>playwright_available = True, launch_ok = True\<rparr>
        [Acquire, Acquire, Render, Acquire] manager_init)
        = [Returned (Some (launched 0)), Returned (Some (launched 0)), Returned (Some (launched 0))]
   \<and> launches (snd (run_events \<lparr>playwright_available = True, launch_ok = True\<rparr>
        [Acquire, Acquire, Render, Acquire] manager_init)) = 1
   \<and> run_schedule \<lparr>playwright_available = True, launch_ok = True\<rparr> ([0..<3] @ [0..<3])
        (replicate 3 AtStart, manager_init)
        = ([Returned (Some (launched 0)), Returned (Some (launched 1)), Returned (Some (launched 2))],
           \<lparr>playwright = True, persistentBrowser = Some (launched 2), screenshotCount = 0,
             launches = 3\<rparr>)"
proof -
  have a: "playwright_available \<lparr>playwright_available = True, launch_ok = True\<rparr>"
    and b: "launch_ok \<lparr>playwright_available = True, launch_ok = True\<rparr>"
    and c: "persistentBrowser manager_init = None"
    by (simp_all add: manager_init_def)
  have d: "set [Acquire, Render, Acquire] \<subseteq> {Acquire, Render}" by simp
  have e: "screenshotCount manager_init + count_list [Acquire, Render, Acquire] Render
        < MAX_SCREENSHOTS_BEFORE_RESTART"
    by (simp add: manager_init_def MAX_SCREENSHOTS_BEFORE_RESTART_def)
  have l: "launches manager_init = 0" by (simp add: manager_init_def)
  have u: "[0..<3] = [0, 1, 2]" by (simp add: upt_rec)
  note t = launch_once_unless_callers_overlap [OF a b c, of "[Acquire, Render, Acquire]" 3]
  have s: "fst (run_events \<lparr>playwright_available = True, launch_ok = True\<rparr>
        [Acquire, Acquire, Render, Acquire] manager_init)
        = [Returned (Some (launched 0)), Returned (Some (launched 0)), Returned (Some (launched 0))]
      \<and> launches (snd (run_events \<lparr>playwright_available = True, launch_ok = True\<rparr>
        [Acquire, Acquire, Render, Acquire] manager_init)) = 1"
    using conjunct1 [OF t] d e by (simp add: l numeral_3_eq_3)
  have o: "run_schedule \<lparr>playwright_available = True, launch_ok = True\<rparr> ([0..<3] @ [0..<3])
        (replicate 3 AtStart, manager_init)
        = ([Returned (Some (launched 0)), Returned (Some (launched 1)), Returned (Some (launched 2))],
           \<lparr>playwright = True, persistentBrowser = Some (launched 2), screenshotCount = 0,
             launches = 3\<rparr>)"
    using conjunct2 [OF t] by (simp add: l u manager_init_def)
  show ?thesis using a b c d e s o by blast
qed

end
